theory Spec2Isabelle
  imports Main "HOL-Library.Sublist"
begin

section \<open>The BibTeX normalizer \<^verbatim>\<open>tools/normalize_bib_abnt.py\<close>\<close>

text \<open>
  A Python \<^verbatim>\<open>str\<close> is modelled as a \<^typ>\<open>string\<close>: a list of code points, each
  \<^typ>\<open>char\<close> being the code point of the same number, U+0000 to U+00FF (Basic Latin and the
  Latin-1 Supplement, which hold the Portuguese letters the tool is written for).
  A field is the triple \<^verbatim>\<open>(indent, name, value)\<close> of the source.
\<close>

type_synonym field = "string \<times> string \<times> string"

definition f_indent :: "field \<Rightarrow> string" where
  "f_indent f = fst f"

definition f_name :: "field \<Rightarrow> string" where
  "f_name f = fst (snd f)"

definition f_value :: "field \<Rightarrow> string" where
  "f_value f = snd (snd f)"

subsection \<open>Characters\<close>

text \<open>
  The order of the code points, read off the bits of a character, the most
  significant bit first.
\<close>

definition char_bits :: "char \<Rightarrow> bool list" where
  "char_bits c = (case c of Char b0 b1 b2 b3 b4 b5 b6 b7 \<Rightarrow> [b7, b6, b5, b4, b3, b2, b1, b0])"

fun bits_le :: "bool list \<Rightarrow> bool list \<Rightarrow> bool" where
  "bits_le (x # xs) (y # ys) = (if x = y then bits_le xs ys else y)"
| "bits_le xs ys = True"

definition char_le :: "char \<Rightarrow> char \<Rightarrow> bool" where
  "char_le c d = bits_le (char_bits c) (char_bits d)"

definition in_range :: "char \<Rightarrow> char \<Rightarrow> char \<Rightarrow> bool" where
  "in_range lo hi c \<longleftrightarrow> char_le lo c \<and> char_le c hi"

text \<open>
  The cased letters: A to Z and U+00C0 to U+00DE without the sign U+00D7 in upper case,
  a to z and U+00E0 to U+00FE without the sign U+00F7 in lower case.
\<close>

definition is_upper :: "char \<Rightarrow> bool" where
  "is_upper c \<longleftrightarrow>
     in_range (CHR ''A'') (CHR ''Z'') c \<or> (in_range (CHR 0xC0) (CHR 0xDE) c \<and> c \<noteq> CHR 0xD7)"

definition is_lower :: "char \<Rightarrow> bool" where
  "is_lower c \<longleftrightarrow>
     in_range (CHR ''a'') (CHR ''z'') c \<or> (in_range (CHR 0xE0) (CHR 0xFE) c \<and> c \<noteq> CHR 0xF7)"

text \<open>
  \<^verbatim>\<open>str.lower\<close>: an upper-case letter moves up by 32 code points, which sets the bit of
  weight 32, clear in every upper-case letter.
\<close>

definition lower_char :: "char \<Rightarrow> char" where
  "lower_char c =
     (case c of Char b0 b1 b2 b3 b4 b5 b6 b7 \<Rightarrow>
        if is_upper c then Char b0 b1 b2 b3 b4 True b6 b7 else c)"

definition py_lower :: "string \<Rightarrow> string" where
  "py_lower s = map lower_char s"

text \<open>
  \<^verbatim>\<open>str.upper\<close>: a lower-case letter moves down by 32 code points, and the sharp s
  (U+00DF) becomes two letters. The upper-case forms of U+00B5 and U+00FF lie beyond
  U+00FF; these two characters are left as they are.
\<close>

definition upper_char :: "char \<Rightarrow> string" where
  "upper_char c =
     (case c of Char b0 b1 b2 b3 b4 b5 b6 b7 \<Rightarrow>
        if is_lower c then [Char b0 b1 b2 b3 b4 False b6 b7]
        else if c = CHR 0xDF then ''SS'' else [c])"

definition py_upper :: "string \<Rightarrow> string" where
  "py_upper s = concat (map upper_char s)"

text \<open>
  \<^verbatim>\<open>str.isspace\<close>, which is also \<^verbatim>\<open>\s\<close> of a \<^verbatim>\<open>str\<close> pattern: U+0009 to U+000D, U+001C to
  U+0020, U+0085 and U+00A0.
\<close>

definition is_space :: "char \<Rightarrow> bool" where
  "is_space c \<longleftrightarrow>
     c = CHR 0x20 \<or> in_range (CHR 0x09) (CHR 0x0D) c \<or> in_range (CHR 0x1C) (CHR 0x1F) c
     \<or> c = CHR 0x85 \<or> c = CHR 0xA0"

definition is_digit :: "char \<Rightarrow> bool" where
  "is_digit c \<longleftrightarrow> in_range (CHR ''0'') (CHR ''9'') c"

definition is_ascii_alpha :: "char \<Rightarrow> bool" where
  "is_ascii_alpha c \<longleftrightarrow> in_range (CHR ''a'') (CHR ''z'') c \<or> in_range (CHR ''A'') (CHR ''Z'') c"

text \<open>
  The word characters of \<^verbatim>\<open>\b\<close>: alphanumeric in the sense of \<^verbatim>\<open>str.isalnum\<close>, or the
  underscore. Beyond ASCII these are U+00AA, U+00B2, U+00B3, U+00B5, U+00B9, U+00BA,
  U+00BC to U+00BE and U+00C0 to U+00FF without the signs U+00D7 and U+00F7.
\<close>

definition is_word :: "char \<Rightarrow> bool" where
  "is_word c \<longleftrightarrow>
     is_ascii_alpha c \<or> is_digit c \<or> c = CHR ''_''
     \<or> (in_range (CHR 0xC0) (CHR 0xFF) c \<and> c \<noteq> CHR 0xD7 \<and> c \<noteq> CHR 0xF7)
     \<or> c \<in> set [CHR 0xAA, CHR 0xB2, CHR 0xB3, CHR 0xB5, CHR 0xB9, CHR 0xBA,
                 CHR 0xBC, CHR 0xBD, CHR 0xBE]"

definition digit_chars :: string where
  "digit_chars = ''0123456789''"

subsection \<open>\<^verbatim>\<open>order_fields\<close>\<close>

definition order_map :: "(string \<times> string list) list" where
  "order_map =
     [(''article'', [''author'', ''title'', ''journal'', ''volume'', ''number'', ''pages'',
                     ''year'', ''doi'', ''url'', ''urldate'', ''language'']),
      (''book'', [''author'', ''title'', ''edition'', ''address'', ''publisher'', ''year'',
                  ''isbn'', ''doi'', ''url'', ''urldate'', ''language'']),
      (''inproceedings'', [''author'', ''title'', ''booktitle'', ''year'', ''organization'',
                           ''publisher'', ''address'', ''pages'', ''doi'', ''url'', ''urldate'',
                           ''language'']),
      (''techreport'', [''author'', ''title'', ''institution'', ''year'', ''number'',
                        ''address'', ''doi'', ''url'', ''urldate'', ''language'']),
      (''misc'', [''author'', ''title'', ''year'', ''howpublished'', ''url'', ''urldate'',
                  ''language'', ''note''])]"

text \<open>\<^verbatim>\<open>order_map.get(entry_type.lower(), [])\<close>\<close>

definition desired_of :: "string \<Rightarrow> string list" where
  "desired_of entry_type =
     (case map_of order_map (py_lower entry_type) of None \<Rightarrow> [] | Some d \<Rightarrow> d)"

text \<open>\<^verbatim>\<open>fields[0][0] if fields else ""\<close>\<close>

definition first_indent :: "field list \<Rightarrow> string" where
  "first_indent fields = (case fields of [] \<Rightarrow> [] | f # _ \<Rightarrow> f_indent f)"

text \<open>
  The inner loop of the first phase: the first field called \<open>name\<close> is appended, unless
  that name is already used; the loop stops there (\<^verbatim>\<open>break\<close>).
  The state is the pair \<^verbatim>\<open>(ordered, used)\<close>.
\<close>

fun take_named :: "string \<Rightarrow> string \<Rightarrow> field list \<Rightarrow> field list \<times> string set
                     \<Rightarrow> field list \<times> string set" where
  "take_named ind name [] st = st"
| "take_named ind name ((i, n, v) # fs) (ordered, used) =
     (if n = name \<and> n \<notin> used then (ordered @ [(ind, n, v)], insert n used)
      else take_named ind name fs (ordered, used))"

text \<open>The outer loop of the first phase, over the names of the priority list.\<close>

fun take_desired :: "string \<Rightarrow> string list \<Rightarrow> field list \<Rightarrow> field list \<times> string set
                       \<Rightarrow> field list \<times> string set" where
  "take_desired ind [] fields st = st"
| "take_desired ind (name # names) fields st =
     take_desired ind names fields (take_named ind name fields st)"

text \<open>The second phase: every field whose name is not used yet.\<close>

fun take_remaining :: "string \<Rightarrow> field list \<Rightarrow> field list \<times> string set
                         \<Rightarrow> field list \<times> string set" where
  "take_remaining ind [] st = st"
| "take_remaining ind ((i, n, v) # fs) (ordered, used) =
     (if n \<notin> used then take_remaining ind fs (ordered @ [(ind, n, v)], insert n used)
      else take_remaining ind fs (ordered, used))"

definition order_fields_with :: "string list \<Rightarrow> field list \<Rightarrow> field list" where
  "order_fields_with desired fields =
     (let ind = first_indent fields
      in fst (take_remaining ind fields (take_desired ind desired fields ([], {}))))"

definition order_fields :: "string \<Rightarrow> field list \<Rightarrow> field list" where
  "order_fields entry_type fields = order_fields_with (desired_of entry_type) fields"

subsection \<open>What the field orderer is to produce\<close>

text \<open>
  The ordering in the words of the specification, to be compared with \<^verbatim>\<open>order_fields\<close>:
  for each name of the priority list the first field of that name, if there is one;
  then, of the other fields, the first occurrence of each name, in their input order.
  Every emitted field carries the indentation of the first input field.
\<close>

definition reindent :: "string \<Rightarrow> field \<Rightarrow> field" where
  "reindent ind f = (ind, f_name f, f_value f)"

definition first_named :: "string \<Rightarrow> field list \<Rightarrow> field list" where
  "first_named name fields =
     (case find (\<lambda>f. f_name f = name) fields of None \<Rightarrow> [] | Some f \<Rightarrow> [f])"

fun first_occurrences :: "field list \<Rightarrow> field list" where
  "first_occurrences [] = []"
| "first_occurrences (f # fs) =
     f # first_occurrences (filter (\<lambda>g. f_name g \<noteq> f_name f) fs)"

definition listed_first :: "string list \<Rightarrow> field list \<Rightarrow> field list" where
  "listed_first desired fields =
     concat (map (\<lambda>name. first_named name fields) desired)
     @ first_occurrences (filter (\<lambda>f. f_name f \<notin> set desired) fields)"

definition order_fields_spec :: "string \<Rightarrow> field list \<Rightarrow> field list" where
  "order_fields_spec entry_type fields =
     map (reindent (first_indent fields)) (listed_first (desired_of entry_type) fields)"

subsection \<open>String methods\<close>

definition py_lstrip :: "string \<Rightarrow> string" where
  "py_lstrip s = dropWhile is_space s"

definition py_rstrip :: "string \<Rightarrow> string" where
  "py_rstrip s = rev (dropWhile is_space (rev s))"

definition py_strip :: "string \<Rightarrow> string" where
  "py_strip s = py_rstrip (py_lstrip s)"

text \<open>\<^verbatim>\<open>s.strip(chars)\<close> and \<^verbatim>\<open>s.rstrip(chars)\<close>\<close>

definition rstrip_chars :: "string \<Rightarrow> string \<Rightarrow> string" where
  "rstrip_chars chars s = rev (dropWhile (\<lambda>c. c \<in> set chars) (rev s))"

definition strip_chars :: "string \<Rightarrow> string \<Rightarrow> string" where
  "strip_chars chars s = rstrip_chars chars (dropWhile (\<lambda>c. c \<in> set chars) s)"

text \<open>\<^verbatim>\<open>sep.join(xs)\<close>\<close>

fun join :: "string \<Rightarrow> string list \<Rightarrow> string" where
  "join sep [] = []"
| "join sep [x] = x"
| "join sep (x # y # ys) = x @ sep @ join sep (y # ys)"

text \<open>\<^verbatim>\<open>s.split()\<close>: the maximal runs of characters that are not white space.\<close>

fun split_ws_go :: "string \<Rightarrow> string \<Rightarrow> string list" where
  "split_ws_go cur [] = (if cur = [] then [] else [rev cur])"
| "split_ws_go cur (c # r) =
     (if is_space c then (if cur = [] then split_ws_go [] r else rev cur # split_ws_go [] r)
      else split_ws_go (c # cur) r)"

definition split_ws :: "string \<Rightarrow> string list" where
  "split_ws s = split_ws_go [] s"

text \<open>\<^verbatim>\<open>s.split(sep)\<close> for a separator of one character.\<close>

fun split_on_go :: "char \<Rightarrow> string \<Rightarrow> string \<Rightarrow> string list" where
  "split_on_go sep cur [] = [rev cur]"
| "split_on_go sep cur (c # r) =
     (if c = sep then rev cur # split_on_go sep [] r else split_on_go sep (c # cur) r)"

definition split_on :: "char \<Rightarrow> string \<Rightarrow> string list" where
  "split_on sep s = split_on_go sep [] s"

text \<open>
  \<^verbatim>\<open>s.replace(old, new)\<close> for a non-empty \<open>old\<close>: the occurrences are found from the
  left and do not overlap; \<open>skip\<close> counts the characters of an occurrence still to pass.
\<close>

fun replace_go :: "string \<Rightarrow> string \<Rightarrow> nat \<Rightarrow> string \<Rightarrow> string" where
  "replace_go old new skip [] = []"
| "replace_go old new (Suc skip) (c # r) = replace_go old new skip r"
| "replace_go old new 0 (c # r) =
     (if prefix old (c # r) then new @ replace_go old new (length old - 1) r
      else c # replace_go old new 0 r)"

definition replace :: "string \<Rightarrow> string \<Rightarrow> string \<Rightarrow> string" where
  "replace old new s = replace_go old new 0 s"

text \<open>\<^verbatim>\<open>sub in s\<close>\<close>

fun contains :: "string \<Rightarrow> string \<Rightarrow> bool" where
  "contains sub [] = (sub = [])"
| "contains sub (c # r) = (prefix sub (c # r) \<or> contains sub r)"

text \<open>
  \<^verbatim>\<open>int(s)\<close> on a text: white space around, a sign, then decimal digits, where single
  underscores may stand between digits. \<open>None\<close> is the \<^verbatim>\<open>ValueError\<close>.
\<close>

definition digit_val :: "char \<Rightarrow> int" where
  "digit_val c = (case map_of (zip digit_chars [0, 1, 2, 3, 4, 5, 6, 7, 8, 9]) c of
                    None \<Rightarrow> 0 | Some d \<Rightarrow> d)"

fun digits_go :: "bool \<Rightarrow> int \<Rightarrow> string \<Rightarrow> int option" where
  "digits_go prev acc [] = (if prev then Some acc else None)"
| "digits_go prev acc (c # r) =
     (if is_digit c then digits_go True (acc * 10 + digit_val c) r
      else if c = CHR ''_'' \<and> prev then digits_go False acc r
      else None)"

definition py_int :: "string \<Rightarrow> int option" where
  "py_int s =
     (case py_strip s of
        [] \<Rightarrow> None
      | c # r \<Rightarrow>
          if c = CHR ''-'' then map_option uminus (digits_go False 0 r)
          else if c = CHR ''+'' then digits_go False 0 r
          else digits_go False 0 (c # r))"

text \<open>The format \<^verbatim>\<open>{n:0wd}\<close>: decimal, padded with zeros to the width \<open>w\<close>, sign included.\<close>

definition digit_char :: "int \<Rightarrow> char" where
  "digit_char d = (case map_of (zip [0, 1, 2, 3, 4, 5, 6, 7, 8, 9] digit_chars) d of
                     None \<Rightarrow> CHR ''0'' | Some c \<Rightarrow> c)"

function int_digits :: "int \<Rightarrow> string" where
  "int_digits n =
     (if n < 10 then [digit_char n] else int_digits (n div 10) @ [digit_char (n mod 10)])"
  by pat_completeness auto
termination
  by (relation "measure nat") auto

definition zero_pad :: "nat \<Rightarrow> string \<Rightarrow> string" where
  "zero_pad w s = replicate (w - length s) (CHR ''0'') @ s"

definition fmt_d :: "nat \<Rightarrow> int \<Rightarrow> string" where
  "fmt_d w n =
     (if n < 0 then CHR ''-'' # zero_pad (w - 1) (int_digits (- n))
      else zero_pad w (int_digits n))"

subsection \<open>Regular expressions of the module \<^verbatim>\<open>re\<close>\<close>

text \<open>
  The patterns of the source use character classes, sequence, alternation, the greedy
  repetition of one character class, the greedy option, groups, \<^verbatim>\<open>\b\<close>, \<^verbatim>\<open>^\<close> and \<^verbatim>\<open>$\<close>.
  \<open>Rep n P\<close> is \<open>n\<close> or more characters of the class \<open>P\<close>.
\<close>

datatype rx =
    Eps
  | Cls "char \<Rightarrow> bool"
  | Seq rx rx
  | Alt rx rx
  | Opt rx
  | Rep nat "char \<Rightarrow> bool"
  | Grp nat rx
  | Bnd
  | Bol
  | Eol

text \<open>
  A position in the subject: the characters before it, last one first; the characters
  from it on; and the groups closed so far, latest first.
\<close>

type_synonym rx_pos = "string \<times> string \<times> (nat \<times> string) list"

text \<open>
  Backtracking as \<^verbatim>\<open>re\<close> does it: the first alternative first, the longest repetition
  first, and the continuation \<open>k\<close> decides whether the rest of the pattern matches.
\<close>

fun rx_rep :: "(char \<Rightarrow> bool) \<Rightarrow> nat \<Rightarrow> string \<Rightarrow> string \<Rightarrow> (string \<Rightarrow> string \<Rightarrow> 'a option)
                 \<Rightarrow> 'a option" where
  "rx_rep P n b [] k = (if n = 0 then k b [] else None)"
| "rx_rep P n b (c # r) k =
     (if P c
      then (case rx_rep P (n - 1) (c # b) r k of
              Some x \<Rightarrow> Some x
            | None \<Rightarrow> if n = 0 then k b (c # r) else None)
      else if n = 0 then k b (c # r) else None)"

definition at_boundary :: "string \<Rightarrow> string \<Rightarrow> bool" where
  "at_boundary b r =
     ((case b of [] \<Rightarrow> False | c # _ \<Rightarrow> is_word c)
      \<noteq> (case r of [] \<Rightarrow> False | c # _ \<Rightarrow> is_word c))"

fun rx_go :: "rx \<Rightarrow> rx_pos \<Rightarrow> (rx_pos \<Rightarrow> 'a option) \<Rightarrow> 'a option" where
  "rx_go Eps p k = k p"
| "rx_go (Cls P) (b, r, g) k =
     (case r of [] \<Rightarrow> None | c # r' \<Rightarrow> if P c then k (c # b, r', g) else None)"
| "rx_go (Seq x y) p k = rx_go x p (\<lambda>p'. rx_go y p' k)"
| "rx_go (Alt x y) p k = (case rx_go x p k of Some a \<Rightarrow> Some a | None \<Rightarrow> rx_go y p k)"
| "rx_go (Opt x) p k = (case rx_go x p k of Some a \<Rightarrow> Some a | None \<Rightarrow> k p)"
| "rx_go (Rep n P) (b, r, g) k = rx_rep P n b r (\<lambda>b' r'. k (b', r', g))"
| "rx_go (Grp i x) (b, r, g) k =
     rx_go x (b, r, g)
       (\<lambda>(b', r', g'). k (b', r', (i, rev (take (length b' - length b) b')) # g'))"
| "rx_go Bnd (b, r, g) k = (if at_boundary b r then k (b, r, g) else None)"
| "rx_go Bol (b, r, g) k = (if b = [] then k (b, r, g) else None)"
| "rx_go Eol (b, r, g) k = (if r = [] \<or> r = [CHR 10] then k (b, r, g) else None)"

text \<open>A match found: the text before it (last character first) and the position after it.\<close>

type_synonym rx_match = "string \<times> rx_pos"

definition rx_at :: "rx \<Rightarrow> string \<Rightarrow> string \<Rightarrow> rx_match option" where
  "rx_at x b r = rx_go x (b, r, []) (\<lambda>p. Some (b, p))"

text \<open>\<^verbatim>\<open>re.match\<close>: at the start of the subject.\<close>

definition rx_match :: "rx \<Rightarrow> string \<Rightarrow> rx_match option" where
  "rx_match x s = rx_at x [] s"

text \<open>\<^verbatim>\<open>re.search\<close>: the leftmost start at which the pattern matches.\<close>

fun rx_search_go :: "rx \<Rightarrow> string \<Rightarrow> string \<Rightarrow> rx_match option" where
  "rx_search_go x b [] = rx_at x b []"
| "rx_search_go x b (c # r) =
     (case rx_at x b (c # r) of Some m \<Rightarrow> Some m | None \<Rightarrow> rx_search_go x (c # b) r)"

definition rx_search :: "rx \<Rightarrow> string \<Rightarrow> rx_match option" where
  "rx_search x s = rx_search_go x [] s"

text \<open>\<^verbatim>\<open>m.group(0)\<close>, \<^verbatim>\<open>m.group(i)\<close> for a group that took part in the match.\<close>

definition group0 :: "rx_match \<Rightarrow> string" where
  "group0 m = (case m of (b, b', r', g) \<Rightarrow> rev (take (length b' - length b) b'))"

definition group :: "nat \<Rightarrow> rx_match \<Rightarrow> string" where
  "group i m = (case m of (b, b', r', g) \<Rightarrow> (case map_of g i of None \<Rightarrow> [] | Some t \<Rightarrow> t))"

text \<open>
  \<^verbatim>\<open>re.sub(pattern, repl, s)\<close> for a literal replacement, and \<^verbatim>\<open>re.split(pattern, s)\<close>, for
  patterns that match no empty text (as all patterns given to them in the source):
  the matches are found from the left and do not overlap. \<open>skip\<close> counts the characters
  of a match still to pass.
\<close>

fun rx_sub_go :: "rx \<Rightarrow> string \<Rightarrow> nat \<Rightarrow> string \<Rightarrow> string \<Rightarrow> string" where
  "rx_sub_go x repl skip b [] = []"
| "rx_sub_go x repl (Suc skip) b (c # r) = rx_sub_go x repl skip (c # b) r"
| "rx_sub_go x repl 0 b (c # r) =
     (case rx_at x b (c # r) of
        None \<Rightarrow> c # rx_sub_go x repl 0 (c # b) r
      | Some m \<Rightarrow>
          if group0 m = [] then c # rx_sub_go x repl 0 (c # b) r
          else repl @ rx_sub_go x repl (length (group0 m) - 1) (c # b) r)"

definition rx_sub :: "rx \<Rightarrow> string \<Rightarrow> string \<Rightarrow> string" where
  "rx_sub x repl s = rx_sub_go x repl 0 [] s"

fun rx_split_go :: "rx \<Rightarrow> nat \<Rightarrow> string \<Rightarrow> string \<Rightarrow> string \<Rightarrow> string list" where
  "rx_split_go x skip b cur [] = [rev cur]"
| "rx_split_go x (Suc skip) b cur (c # r) = rx_split_go x skip (c # b) cur r"
| "rx_split_go x 0 b cur (c # r) =
     (case rx_at x b (c # r) of
        None \<Rightarrow> rx_split_go x 0 (c # b) (c # cur) r
      | Some m \<Rightarrow>
          if group0 m = [] then rx_split_go x 0 (c # b) (c # cur) r
          else rev cur # rx_split_go x (length (group0 m) - 1) (c # b) [] r)"

definition rx_split :: "rx \<Rightarrow> string \<Rightarrow> string list" where
  "rx_split x s = rx_split_go x 0 [] [] s"

text \<open>Building patterns: a literal, a literal under \<^verbatim>\<open>re.IGNORECASE\<close>, a set, a text.\<close>

definition lit :: "char \<Rightarrow> rx" where
  "lit c = Cls (\<lambda>x. x = c)"

definition ilit :: "char \<Rightarrow> rx" where
  "ilit c = (let l = lower_char c in Cls (\<lambda>x. lower_char x = l))"

definition iset :: "string \<Rightarrow> rx" where
  "iset cs = (let ls = map lower_char cs in Cls (\<lambda>x. lower_char x \<in> set ls))"

fun seqs :: "rx list \<Rightarrow> rx" where
  "seqs [] = Eps"
| "seqs [x] = x"
| "seqs (x # y # ys) = Seq x (seqs (y # ys))"

definition str :: "string \<Rightarrow> rx" where
  "str s = seqs (map lit s)"

definition istr :: "string \<Rightarrow> rx" where
  "istr s = seqs (map ilit s)"

subsection \<open>\<^verbatim>\<open>normalize_date_pt\<close>\<close>

definition months :: "(string \<times> nat) list" where
  "months =
     [(''jan'', 1), (''janeiro'', 1),
      (''fev'', 2), (''fevereiro'', 2),
      (''mar'', 3), (''mar'' @ [CHR 0xE7] @ ''o'', 3), (''marco'', 3),
      (''abr'', 4), (''abril'', 4),
      (''mai'', 5), (''maio'', 5),
      (''jun'', 6), (''junho'', 6),
      (''jul'', 7), (''julho'', 7),
      (''ago'', 8), (''agosto'', 8),
      (''set'', 9), (''setembro'', 9),
      (''out'', 10), (''outubro'', 10),
      (''nov'', 11), (''novembro'', 11),
      (''dez'', 12), (''dezembro'', 12)]"

text \<open>\<^verbatim>\<open>f"{year:04d}-{month:02d}-{day:02d}"\<close>\<close>

definition fmt_date :: "int \<Rightarrow> nat \<Rightarrow> int \<Rightarrow> string" where
  "fmt_date year month day = fmt_d 4 year @ ''-'' @ fmt_d 2 (int month) @ ''-'' @ fmt_d 2 day"

text \<open>
  The fallback goes through the standard library, which is no part of the repository:
  \<open>fromiso s\<close> stands for \<^verbatim>\<open>datetime.fromisoformat(s).date().isoformat()\<close>, and is \<open>None\<close>
  when that raises. A failing \<^verbatim>\<open>int\<close> leaves the first \<^verbatim>\<open>try\<close> with \<open>None\<close>; three parts
  with an unknown month fall through to the fallback.
\<close>

definition clean_date :: "string \<Rightarrow> string" where
  "clean_date date_str = replace ''.'' [] (replace ''de '' [] (py_lower (py_strip date_str)))"

definition date_of_parts ::
    "(string \<Rightarrow> string option) \<Rightarrow> string \<Rightarrow> string list \<Rightarrow> string option" where
  "date_of_parts fromiso s parts =
     (case parts of
        [p0, p1, p2] \<Rightarrow>
          (case py_int p0 of
             None \<Rightarrow> None
           | Some day \<Rightarrow>
               (case py_int p2 of
                  None \<Rightarrow> None
                | Some year \<Rightarrow>
                    (case map_of months (take 3 p1) of
                       Some month \<Rightarrow>
                         if month \<noteq> 0 then Some (fmt_date year month day) else fromiso s
                     | None \<Rightarrow> fromiso s)))
      | _ \<Rightarrow> fromiso s)"

definition normalize_date_pt :: "(string \<Rightarrow> string option) \<Rightarrow> string \<Rightarrow> string option" where
  "normalize_date_pt fromiso date_str =
     date_of_parts fromiso (clean_date date_str) (split_ws (clean_date date_str))"

subsection \<open>Author names\<close>

text \<open>
  \<^verbatim>\<open>_smart_title_case\<close>. The parts of a token split at its hyphens hold no hyphen, so the
  recursive call on a part takes one of the other branches, here \<open>title_case_part\<close>.
\<close>

definition title_case_part :: "string \<Rightarrow> string" where
  "title_case_part token =
     (if CHR ''.'' \<in> set token then py_upper token
      else case py_lower token of [] \<Rightarrow> token | c # cs \<Rightarrow> upper_char c @ cs)"

definition smart_title_case :: "string \<Rightarrow> string" where
  "smart_title_case token =
     (if CHR ''-'' \<in> set token
      then join ''-'' (map title_case_part (split_on (CHR ''-'') token))
      else title_case_part token)"

definition particles :: "string list" where
  "particles = [''da'', ''de'', ''do'', ''das'', ''dos'', ''e'', ''d'', ''di'', ''du'', ''van'',
                ''von'', ''der'', ''del'', ''della'', ''la'', ''le'']"

text \<open>The loop over \<^verbatim>\<open>enumerate(given_parts)\<close>, from the index \<open>idx\<close> on.\<close>

definition format_part :: "nat \<Rightarrow> string \<Rightarrow> string \<Rightarrow> string" where
  "format_part idx part pl = (if pl \<in> set particles \<and> idx \<noteq> 0 then pl else smart_title_case part)"

fun format_given :: "nat \<Rightarrow> string list \<Rightarrow> string list" where
  "format_given idx [] = []"
| "format_given idx (part # ps) =
     format_part idx part (strip_chars ''.,'' (py_lower part)) # format_given (idx + 1) ps"

text \<open>\<^verbatim>\<open>\s+\<close>\<close>

definition rx_spaces :: rx where
  "rx_spaces = Rep 1 is_space"

text \<open>The name has a comma: \<^verbatim>\<open>left, right = name.split(",", 1)\<close>.\<close>

definition format_comma_name :: "string \<Rightarrow> string" where
  "format_comma_name name =
     (let left = takeWhile (\<lambda>c. c \<noteq> CHR '','') name;
          right = tl (dropWhile (\<lambda>c. c \<noteq> CHR '','') name);
          surname = py_upper (py_strip left);
          given_parts = filter (\<lambda>p. p \<noteq> []) (split_ws (py_strip right))
      in py_strip (surname @ '', '' @ join '' '' (format_given 0 given_parts)))"

text \<open>The name has no comma: \<^verbatim>\<open>parts = name.split()\<close>, which is not empty here.\<close>

definition format_plain_name :: "string list \<Rightarrow> string" where
  "format_plain_name parts =
     (if length parts = 1 then py_upper (hd parts)
      else py_strip (py_upper (last parts) @ '', ''
                     @ join '' '' (format_given 0 (butlast parts))))"

definition format_clean_name :: "string \<Rightarrow> string" where
  "format_clean_name name =
     (if name = [] then name
      else if CHR '','' \<in> set name then format_comma_name name
      else format_plain_name (split_ws name))"

definition format_author_abnt :: "string \<Rightarrow> string" where
  "format_author_abnt name = format_clean_name (rx_sub rx_spaces '' '' (py_strip name))"

text \<open>\<^verbatim>\<open>\s+and\s+\<close> and \<^verbatim>\<open>\bothers\.?\b\<close> (ignoring case)\<close>

definition rx_and :: rx where
  "rx_and = seqs [Rep 1 is_space, str ''and'', Rep 1 is_space]"

definition rx_others :: rx where
  "rx_others = seqs [Bnd, istr ''others'', Opt (lit (CHR ''.'')), Bnd]"

text \<open>
  The body of the loop of \<^verbatim>\<open>normalize_author_list_abnt\<close>: what a part with the token
  \<open>token\<close> appends to \<^verbatim>\<open>normalized\<close>.
\<close>

definition author_token :: "string \<Rightarrow> string list" where
  "author_token token =
     (if token = [] then []
      else if rx_search rx_others token \<noteq> None then [''others.'']
      else [format_author_abnt token])"

definition author_part :: "string \<Rightarrow> string list" where
  "author_part p = author_token (strip_chars ''{} '' (py_strip p))"

definition normalize_author_list_abnt :: "string \<Rightarrow> string" where
  "normalize_author_list_abnt author_value =
     join '' and '' (concat (map author_part (rx_split rx_and (py_strip author_value))))"

subsection \<open>Notes, links and access dates\<close>

text \<open>\<^verbatim>\<open>Dispon[i\xed]vel\s+em:\<close> and \<^verbatim>\<open>Acess(?:o|ado)\s+em:\<close>, both ignoring case\<close>

definition rx_avail :: rx where
  "rx_avail = seqs [istr ''Dispon'', iset [CHR ''i'', CHR 0xED], istr ''vel'',
                    Rep 1 is_space, istr ''em:'']"

definition rx_access :: rx where
  "rx_access = seqs [istr ''Acess'', Alt (istr ''o'') (istr ''ado''), Rep 1 is_space, istr ''em:'']"

text \<open>\<^verbatim>\<open>[^.;\n]+\<close>\<close>

definition rx_sentence :: rx where
  "rx_sentence = Rep 1 (\<lambda>c. c \<notin> set [CHR ''.'', CHR '';'', CHR 10])"

text \<open>\<^verbatim>\<open>Dispon[i\xed]vel\s+em:\s*([^\s,;]+)\<close>\<close>

definition rx_avail_url :: rx where
  "rx_avail_url = seqs [rx_avail, Rep 0 is_space,
                        Grp 1 (Rep 1 (\<lambda>c. \<not> is_space c \<and> c \<notin> set '',;''))]"

text \<open>\<^verbatim>\<open>Acess(?:o|ado)\s+em:\s*([^.;\n]+)\<close>\<close>

definition rx_access_date :: rx where
  "rx_access_date = seqs [rx_access, Rep 0 is_space, Grp 1 rx_sentence]"

text \<open>\<^verbatim>\<open>candidate[:-1]\<close> when the candidate ends with a full stop.\<close>

definition drop_final_stop :: "string \<Rightarrow> string" where
  "drop_final_stop candidate =
     (if candidate \<noteq> [] \<and> last candidate = CHR ''.'' then butlast candidate else candidate)"

text \<open>The two results of \<^verbatim>\<open>extract_url_and_access\<close>, on the note without angle brackets.\<close>

definition note_url :: "string \<Rightarrow> string option" where
  "note_url note =
     (case rx_search rx_avail_url note of
        None \<Rightarrow> None
      | Some m \<Rightarrow> Some (drop_final_stop (py_strip (group 1 m))))"

definition note_urldate :: "(string \<Rightarrow> string option) \<Rightarrow> string \<Rightarrow> string option" where
  "note_urldate fromiso note =
     (case rx_search rx_access_date note of
        None \<Rightarrow> None
      | Some m2 \<Rightarrow> normalize_date_pt fromiso (group 1 m2))"

definition without_angles :: "string \<Rightarrow> string" where
  "without_angles s = replace ''>'' [] (replace ''<'' [] s)"

definition extract_url_and_access ::
    "(string \<Rightarrow> string option) \<Rightarrow> string \<Rightarrow> string option \<times> string option" where
  "extract_url_and_access fromiso note_value =
     (note_url (without_angles note_value), note_urldate fromiso (without_angles note_value))"

text \<open>\<^verbatim>\<open>https?://\S+\<close>, as written and ignoring case; \<^verbatim>\<open>[<>\s.,;:]+\<close>\<close>

definition rx_http :: rx where
  "rx_http = seqs [str ''http'', Opt (lit (CHR ''s'')), str ''://'', Rep 1 (\<lambda>c. \<not> is_space c)]"

definition rx_http_i :: rx where
  "rx_http_i = seqs [istr ''http'', Opt (ilit (CHR ''s'')), istr ''://'',
                     Rep 1 (\<lambda>c. \<not> is_space c)]"

definition rx_punct :: rx where
  "rx_punct = Rep 1 (\<lambda>c. is_space c \<or> c \<in> set ''<>.,;:'')"

definition is_trivial_note :: "string \<Rightarrow> bool" where
  "is_trivial_note note_value \<longleftrightarrow>
     py_strip
       (rx_sub rx_punct '' ''
         (rx_sub rx_http_i []
           (rx_sub (Seq rx_access rx_sentence) []
             (rx_sub (Seq rx_avail rx_sentence) [] note_value)))) = []"

text \<open>\<^verbatim>\<open>\b(?:www\.)?[A-Za-z0-9.-]+\.[A-Za-z]{2,}(?:/\S*)?\<close>\<close>

definition rx_domain :: rx where
  "rx_domain =
     seqs [Bnd, Opt (str ''www.''),
           Rep 1 (\<lambda>c. is_ascii_alpha c \<or> is_digit c \<or> c \<in> set ''.-''),
           lit (CHR ''.''), Rep 2 is_ascii_alpha,
           Opt (Seq (lit (CHR ''/'')) (Rep 0 (\<lambda>c. \<not> is_space c)))]"

definition clean_candidate :: "string \<Rightarrow> string option" where
  "clean_candidate candidate =
     (case rx_search rx_http candidate of
        Some m \<Rightarrow> Some (rstrip_chars ''.,);]'' (group0 m))
      | None \<Rightarrow>
          (case rx_search rx_domain candidate of
             Some m2 \<Rightarrow> Some (group0 m2)
           | None \<Rightarrow> None))"

definition clean_url_value :: "string \<Rightarrow> string option" where
  "clean_url_value v = clean_candidate (without_angles (py_strip v))"

subsection \<open>\<^verbatim>\<open>normalize_fields\<close>\<close>

text \<open>
  The record index \<^verbatim>\<open>entries_map\<close>: the latest binding of a key comes first, and
  \<open>map_of\<close> looks a key up.
\<close>

type_synonym entries_map = "(string \<times> string \<times> field list \<times> string list) list"

definition has_name :: "string \<Rightarrow> field list \<Rightarrow> bool" where
  "has_name n fields \<longleftrightarrow> n \<in> set (map f_name fields)"

text \<open>A field made by the normalizer: \<^verbatim>\<open>(new_fields[0][0] if new_fields else "", name, value)\<close>.\<close>

definition add_field :: "string \<Rightarrow> string \<Rightarrow> field list \<Rightarrow> field list" where
  "add_field name v new_fields = new_fields @ [(first_indent new_fields, name, v)]"

text \<open>The value of the first field called \<^verbatim>\<open>crossref\<close> in any case, stripped.\<close>

definition crossref_key :: "field list \<Rightarrow> string option" where
  "crossref_key fields =
     (case find (\<lambda>f. py_lower (f_name f) = ''crossref'') fields of
        None \<Rightarrow> None
      | Some f \<Rightarrow> Some (py_strip (f_value f)))"

text \<open>The parent's fields that a child with the names \<open>child_names\<close> inherits.\<close>

definition inherited :: "string list \<Rightarrow> field list \<Rightarrow> field list" where
  "inherited child_names parent_fields =
     filter (\<lambda>p. py_lower (f_name p) \<notin> set child_names
                  \<and> py_lower (f_name p) \<notin> set [''key'', ''crossref''])
       parent_fields"

text \<open>
  \<^verbatim>\<open>merged_fields\<close>. The test \<^verbatim>\<open>crossref_key and entries_map and crossref_key in entries_map\<close>:
  a key that is there and not empty, in an index that binds it (such an index is not
  empty).
\<close>

definition merge_crossref :: "field list \<Rightarrow> entries_map \<Rightarrow> field list" where
  "merge_crossref fields entries_map =
     (case crossref_key fields of
        None \<Rightarrow> fields
      | Some ck \<Rightarrow>
          if ck = [] then fields
          else (case map_of entries_map ck of
                  None \<Rightarrow> fields
                | Some (parent_type, parent_fields, parent_unknown) \<Rightarrow>
                    filter (\<lambda>f. py_lower (f_name f) \<noteq> ''crossref'')
                      (fields @ inherited (map (\<lambda>f. py_lower (f_name f)) fields) parent_fields)))"

text \<open>\<^verbatim>\<open>\bet\s*al\.?\b\<close>, \<^verbatim>\<open>Dispon[i\xed]vel\s+em:|https?://\<close> (both ignoring case) and the two
  split patterns \<^verbatim>\<open>Dispon[i\xed]vel\s+em:\s*\<close> and \<^verbatim>\<open>Acess(?:o|ado)\s+em:\s*\<close>\<close>

definition rx_etal :: rx where
  "rx_etal = seqs [Bnd, istr ''et'', Rep 0 is_space, istr ''al'', Opt (lit (CHR ''.'')), Bnd]"

definition rx_avail_or_http :: rx where
  "rx_avail_or_http = Alt rx_avail (seqs [istr ''http'', Opt (ilit (CHR ''s'')), istr ''://''])"

definition rx_avail_split :: rx where
  "rx_avail_split = Seq rx_avail (Rep 0 is_space)"

definition rx_access_split :: rx where
  "rx_access_split = Seq rx_access (Rep 0 is_space)"

text \<open>\<^verbatim>\<open>re.split(pattern, s)[0]\<close>\<close>

definition first_piece :: "rx \<Rightarrow> string \<Rightarrow> string" where
  "first_piece x s = (case rx_split x s of [] \<Rightarrow> [] | p # _ \<Rightarrow> p)"

definition sao_paulo :: string where
  "sao_paulo = ''S'' @ [CHR 0xE3] @ ''o Paulo''"

definition edicoes_70 :: string where
  "edicoes_70 = ''Edi'' @ [CHR 0xE7, CHR 0xF5] @ ''es 70''"

text \<open>The rewrites of the value of a field called \<open>lname\<close>, in the order of the source.\<close>

definition url_value :: "string \<Rightarrow> string \<Rightarrow> string" where
  "url_value lname v =
     (if lname = ''url''
      then (case clean_url_value v of
              None \<Rightarrow> v
            | Some cleaned \<Rightarrow> if cleaned \<noteq> [] then cleaned else v)
      else v)"

definition doi_value :: "string \<Rightarrow> string \<Rightarrow> string" where
  "doi_value lname v =
     (if lname = ''doi''
      then py_strip (replace ''https://doi.org/'' [] (replace ''http://doi.org/'' [] v))
      else v)"

definition author_value :: "string \<Rightarrow> string \<Rightarrow> string" where
  "author_value lname v =
     (if lname = ''author'' then normalize_author_list_abnt (rx_sub rx_etal ''and others'' v)
      else v)"

definition rewrite_value :: "string \<Rightarrow> string \<Rightarrow> string" where
  "rewrite_value lname v = author_value lname (doi_value lname (url_value lname v))"

text \<open>
  A bibliographic field that holds a link: whether it does, what is left of its value,
  and the \<^verbatim>\<open>url\<close> and \<^verbatim>\<open>urldate\<close> fields it yields when the names are not in
  \<^verbatim>\<open>new_fields\<close> yet (\<^verbatim>\<open>existing_names\<close> is taken before either is appended).
\<close>

definition holds_link :: "string \<Rightarrow> string \<Rightarrow> bool" where
  "holds_link lname v \<longleftrightarrow>
     lname \<in> set [''journal'', ''publisher'', ''booktitle'', ''address'']
     \<and> rx_search rx_avail_or_http v \<noteq> None"

definition before_link :: "string \<Rightarrow> string" where
  "before_link v = rstrip_chars '' .;'' (py_strip (first_piece rx_avail_split v))"

definition link_field :: "string \<Rightarrow> string \<Rightarrow> string option \<Rightarrow> field list \<Rightarrow> field list" where
  "link_field indent name found new_fields =
     (case found of
        None \<Rightarrow> []
      | Some x \<Rightarrow> if x \<noteq> [] \<and> \<not> has_name name new_fields then [(indent, name, x)] else [])"

fun add_links :: "string \<Rightarrow> string option \<times> string option \<Rightarrow> field list \<Rightarrow> field list" where
  "add_links indent (url_from_field, urldate_from_field) new_fields =
     new_fields @ link_field indent ''url'' url_from_field new_fields
                @ link_field indent ''urldate'' urldate_from_field new_fields"

text \<open>\<^verbatim>\<open>Fix Bardin book common mistakes\<close>\<close>

definition bardin_value :: "string \<Rightarrow> string \<Rightarrow> string" where
  "bardin_value lname v =
     (if lname = ''publisher'' \<and> strip_chars ''{} '' v \<in> set [sao_paulo, ''Sao Paulo'']
      then edicoes_70
      else if lname = ''address'' \<and> py_strip v = [] then sao_paulo
      else v)"

text \<open>
  The end of the loop body, from \<^verbatim>\<open>Drop non-standard 'key' field\<close> on. The state is
  \<^verbatim>\<open>new_fields\<close> with \<^verbatim>\<open>note_value_for_url\<close>; the set \<^verbatim>\<open>seen_names\<close> is written and never
  read.
\<close>

fun field_emit :: "string \<Rightarrow> string \<Rightarrow> string \<Rightarrow> string \<Rightarrow> field list \<times> string option
                     \<Rightarrow> field list \<times> string option" where
  "field_emit key indent lname v (new_fields, note) =
     (if lname = ''key'' then (new_fields, note)
      else if py_lower key = ''bardin2016''
      then (if lname = ''edition'' \<and> v = ''70'' then (new_fields, note)
            else (new_fields @ [(indent, lname, bardin_value lname v)], note))
      else (new_fields @ [(indent, lname, v)], note))"

text \<open>The loop body for a field with the lower-case name \<open>lname\<close> and the rewritten value \<open>v\<close>.\<close>

fun field_value_step ::
    "(string \<Rightarrow> string option) \<Rightarrow> string \<Rightarrow> string \<Rightarrow> string \<Rightarrow> string
       \<Rightarrow> field list \<times> string option \<Rightarrow> field list \<times> string option" where
  "field_value_step fromiso key indent lname v (new_fields, note) =
     (if lname = ''note''
      then (if is_trivial_note v then (new_fields, Some v)
            else field_emit key indent lname v (new_fields, Some v))
      else if holds_link lname v
      then field_emit key indent lname (before_link v)
             (add_links indent (extract_url_and_access fromiso v) new_fields, note)
      else field_emit key indent lname v (new_fields, note))"

fun field_step ::
    "(string \<Rightarrow> string option) \<Rightarrow> string \<Rightarrow> field \<Rightarrow> field list \<times> string option
       \<Rightarrow> field list \<times> string option" where
  "field_step fromiso key (indent, name, val) st =
     field_value_step fromiso key indent (py_lower name)
       (rewrite_value (py_lower name) (py_strip val)) st"

primrec field_loop ::
    "(string \<Rightarrow> string option) \<Rightarrow> string \<Rightarrow> field list \<Rightarrow> field list \<times> string option
       \<Rightarrow> field list \<times> string option" where
  "field_loop fromiso key [] st = st"
| "field_loop fromiso key (f # fs) st = field_loop fromiso key fs (field_step fromiso key f st)"

text \<open>
  \<^verbatim>\<open>If Bardin2016 missing correct publisher/address, add them\<close>: the names are taken once,
  before the publisher is appended.
\<close>

definition add_unless :: "bool \<Rightarrow> string \<Rightarrow> string \<Rightarrow> field list \<Rightarrow> field list" where
  "add_unless present name v new_fields = (if present then new_fields else add_field name v new_fields)"

definition bardin_defaults :: "string \<Rightarrow> field list \<Rightarrow> field list" where
  "bardin_defaults key new_fields =
     (if py_lower key = ''bardin2016''
      then add_unless (has_name ''address'' new_fields) ''address'' sao_paulo
             (add_unless (has_name ''publisher'' new_fields) ''publisher'' edicoes_70 new_fields)
      else new_fields)"

text \<open>\<^verbatim>\<open>Extract url/urldate from note for misc/online entries\<close>\<close>

fun add_note_url :: "string option \<Rightarrow> field list \<Rightarrow> field list" where
  "add_note_url None new_fields = new_fields"
| "add_note_url (Some u) new_fields = (if u \<noteq> [] then add_field ''url'' u new_fields else new_fields)"

fun add_note_urldate :: "string option \<Rightarrow> field list \<Rightarrow> field list" where
  "add_note_urldate None new_fields = new_fields"
| "add_note_urldate (Some d) new_fields =
     (if d \<noteq> [] \<and> \<not> has_name ''urldate'' new_fields then add_field ''urldate'' d new_fields
      else new_fields)"

fun add_note_links :: "string option \<times> string option \<Rightarrow> field list \<Rightarrow> field list" where
  "add_note_links (url, urldate) new_fields = add_note_urldate urldate (add_note_url url new_fields)"

fun note_links ::
    "(string \<Rightarrow> string option) \<Rightarrow> string option \<Rightarrow> field list \<Rightarrow> field list" where
  "note_links fromiso None new_fields = new_fields"
| "note_links fromiso (Some nv) new_fields =
     (if nv \<noteq> [] \<and> \<not> has_name ''url'' new_fields
      then add_note_links (extract_url_and_access fromiso nv) new_fields
      else new_fields)"

text \<open>\<^verbatim>\<open>^\d{4}-\d{2}-\d{2}$\<close>\<close>

definition rx_ymd :: rx where
  "rx_ymd = seqs [Bol, Cls is_digit, Cls is_digit, Cls is_digit, Cls is_digit, lit (CHR ''-''),
                  Cls is_digit, Cls is_digit, lit (CHR ''-''), Cls is_digit, Cls is_digit, Eol]"

text \<open>\<^verbatim>\<open>ABNT-friendly enrichment for misc entries in Portuguese context\<close>, step by step.\<close>

definition misc_author :: "string \<Rightarrow> field list \<Rightarrow> field list" where
  "misc_author key_lower new_fields =
     (if has_name ''author'' new_fields then new_fields
      else if contains ''brasil'' key_lower then add_field ''author'' ''BRASIL'' new_fields
      else if prefix ''w3c'' key_lower then add_field ''author'' ''W3C'' new_fields
      else new_fields)"

text \<open>The candidate title, from its first cut on: \<^verbatim>\<open>if candidate:\<close> twice.\<close>

definition title_tail :: "string \<Rightarrow> string option" where
  "title_tail candidate =
     (if candidate = [] then None
      else (let c = rstrip_chars '' .;'' (py_strip (first_piece rx_access_split candidate))
            in if c = [] then None else Some c))"

definition title_from_note :: "string \<Rightarrow> string option" where
  "title_from_note nv = title_tail (py_strip (first_piece rx_avail_split (without_angles nv)))"

fun add_title :: "string option \<Rightarrow> field list \<Rightarrow> field list" where
  "add_title None new_fields = new_fields"
| "add_title (Some t) new_fields = add_field ''title'' t new_fields"

fun misc_title :: "bool \<Rightarrow> string option \<Rightarrow> field list \<Rightarrow> field list" where
  "misc_title has_title None new_fields = new_fields"
| "misc_title has_title (Some nv) new_fields =
     (if \<not> has_title \<and> nv \<noteq> [] then add_title (title_from_note nv) new_fields else new_fields)"

fun year_from :: "field option \<Rightarrow> field list \<Rightarrow> field list" where
  "year_from None new_fields = new_fields"
| "year_from (Some f) new_fields =
     (if f_value f \<noteq> [] \<and> rx_match rx_ymd (f_value f) \<noteq> None
      then add_field ''year'' (take 4 (f_value f)) new_fields
      else new_fields)"

definition misc_year :: "field list \<Rightarrow> field list" where
  "misc_year new_fields =
     (if has_name ''year'' new_fields then new_fields
      else year_from (find (\<lambda>f. f_name f = ''urldate'') new_fields) new_fields)"

definition misc_howpublished :: "field list \<Rightarrow> field list" where
  "misc_howpublished new_fields =
     (if has_name ''url'' new_fields \<and> \<not> has_name ''howpublished'' new_fields
      then add_field ''howpublished'' ''Online'' new_fields
      else new_fields)"

text \<open>The names for the author and the title are taken once, before the author is added.\<close>

definition misc_enrich :: "string \<Rightarrow> string \<Rightarrow> string option \<Rightarrow> field list \<Rightarrow> field list" where
  "misc_enrich entry_type key note new_fields =
     (if py_lower entry_type = ''misc''
      then misc_howpublished
             (misc_year
               (misc_title (has_name ''title'' new_fields) note
                 (misc_author (py_lower key) new_fields)))
      else new_fields)"

text \<open>\<^verbatim>\<open>language detection for PT-BR\<close>: the markers, all sought ignoring case.\<close>

definition pt_markers :: "rx list" where
  "pt_markers =
     [seqs [istr ''Dispon'', iset [CHR ''i'', CHR 0xED], istr ''vel''],
      istr ''Acesso'',
      istr (''Lei n'' @ [CHR 0xBA]),
      istr (''Decreto n'' @ [CHR 0xBA]),
      seqs [istr ''Educa'', iset [CHR 0xE7, CHR ''c''], iset [CHR ''a'', CHR 0xE3], istr ''o''],
      istr ''Sociedade'',
      istr sao_paulo,
      istr (''Edi'' @ [CHR 0xE7, CHR 0xF5] @ ''es''),
      istr ''Revista'',
      istr ''Anais'']"

definition has_marker :: "string \<Rightarrow> bool" where
  "has_marker text \<longleftrightarrow> list_ex (\<lambda>p. rx_search p text \<noteq> None) pt_markers"

definition is_pt_field :: "field \<Rightarrow> bool" where
  "is_pt_field f \<longleftrightarrow> has_marker (f_name f @ '' '' @ f_value f)"

definition detect_language :: "field list \<Rightarrow> field list" where
  "detect_language new_fields =
     (if \<not> has_name ''language'' new_fields \<and> list_ex is_pt_field new_fields
      then add_field ''language'' ''portuguese'' new_fields
      else new_fields)"

text \<open>What follows the loop over \<^verbatim>\<open>merged_fields\<close>.\<close>

fun after_loop ::
    "(string \<Rightarrow> string option) \<Rightarrow> string \<Rightarrow> string \<Rightarrow> field list \<times> string option
       \<Rightarrow> field list" where
  "after_loop fromiso entry_type key (new_fields, note) =
     detect_language
       (misc_enrich entry_type key note
         (note_links fromiso note (bardin_defaults key new_fields)))"

definition normalize_fields ::
    "(string \<Rightarrow> string option) \<Rightarrow> string \<Rightarrow> string \<Rightarrow> field list \<Rightarrow> entries_map
       \<Rightarrow> field list" where
  "normalize_fields fromiso entry_type key fields entries_map =
     after_loop fromiso entry_type key
       (field_loop fromiso key (merge_crossref fields entries_map) ([], None))"

subsection \<open>\<^verbatim>\<open>entry_fingerprint\<close>\<close>

type_synonym fingerprint = "string \<times> string \<times> string"

text \<open>\<^verbatim>\<open>[^a-z0-9]+\<close>\<close>

definition rx_not_alnum :: rx where
  "rx_not_alnum = Rep 1 (\<lambda>c. \<not> (in_range (CHR ''a'') (CHR ''z'') c \<or> is_digit c))"

text \<open>The loop body: a later field of the same kind overwrites an earlier one.\<close>

fun fingerprint_step :: "fingerprint \<Rightarrow> string \<Rightarrow> string \<Rightarrow> fingerprint" where
  "fingerprint_step (doi, url, title) lname val =
     (if lname = ''doi'' then (py_lower (py_strip val), url, title)
      else if lname = ''url'' then (doi, py_lower (py_strip val), title)
      else if lname = ''title'' then (doi, url, rx_sub rx_not_alnum [] (py_lower (py_strip val)))
      else (doi, url, title))"

primrec fingerprint_loop :: "field list \<Rightarrow> fingerprint \<Rightarrow> fingerprint" where
  "fingerprint_loop [] fp = fp"
| "fingerprint_loop (f # fs) fp =
     fingerprint_loop fs (fingerprint_step fp (py_lower (f_name f)) (f_value f))"

definition entry_fingerprint :: "string \<Rightarrow> string \<Rightarrow> field list \<Rightarrow> fingerprint" where
  "entry_fingerprint entry_type key fields = fingerprint_loop fields ([], [], [])"

text \<open>\<^verbatim>\<open>any(fp)\<close>\<close>

fun any_fp :: "fingerprint \<Rightarrow> bool" where
  "any_fp (doi, url, title) \<longleftrightarrow> doi \<noteq> [] \<or> url \<noteq> [] \<or> title \<noteq> []"

subsection \<open>\<^verbatim>\<open>build_entry\<close>\<close>

definition newline :: string where
  "newline = [CHR 10]"

definition header_line :: "string \<Rightarrow> string \<Rightarrow> string" where
  "header_line entry_type key = ''@'' @ entry_type @ ''{'' @ key @ '',''"

definition field_line :: "field \<Rightarrow> string" where
  "field_line f = f_indent f @ f_name f @ '' = {'' @ f_value f @ ''},''"

text \<open>An indentation is never \<^verbatim>\<open>None\<close>, so \<^verbatim>\<open>indent_style\<close> is not used.\<close>

definition build_entry :: "string \<Rightarrow> string \<Rightarrow> field list \<Rightarrow> string list \<Rightarrow> string \<Rightarrow> string" where
  "build_entry entry_type key fields unknown indent_style =
     join newline (header_line entry_type key # map field_line fields @ unknown @ [''}''])"

subsection \<open>\<^verbatim>\<open>split_entries\<close>\<close>

text \<open>
  \<^verbatim>\<open>str.splitlines\<close>: a line ends at U+000A, U+000B, U+000C, U+000D (with a U+000A that
  follows it), U+001C, U+001D, U+001E or U+0085.
\<close>

definition is_linebreak :: "char \<Rightarrow> bool" where
  "is_linebreak c \<longleftrightarrow>
     c \<in> set [CHR 0x0A, CHR 0x0B, CHR 0x0C, CHR 0x1C, CHR 0x1D, CHR 0x1E, CHR 0x85]"

fun splitlines_go :: "string \<Rightarrow> string \<Rightarrow> string list" where
  "splitlines_go cur [] = (if cur = [] then [] else [rev cur])"
| "splitlines_go cur (c # r) =
     (if c = CHR 0x0D
      then (case r of
              [] \<Rightarrow> [rev cur]
            | d # r' \<Rightarrow> if d = CHR 0x0A then rev cur # splitlines_go [] r'
                        else rev cur # splitlines_go [] (d # r'))
      else if is_linebreak c then rev cur # splitlines_go [] r
      else splitlines_go (c # cur) r)"

definition splitlines :: "string \<Rightarrow> string list" where
  "splitlines s = splitlines_go [] s"







subsection \<open>\<^verbatim>\<open>parse_entry\<close>\<close>

text \<open>\<^verbatim>\<open>^\s*@([a-zA-Z]+)\s*\{\s*([^,\s]+)\s*,\s*$\<close>\<close>

definition ENTRY_START_RE :: rx where
  "ENTRY_START_RE =
     seqs [Bol, Rep 0 is_space, lit (CHR ''@''), Grp 1 (Rep 1 is_ascii_alpha), Rep 0 is_space,
           lit (CHR ''{''), Rep 0 is_space,
           Grp 2 (Rep 1 (\<lambda>c. c \<noteq> CHR '','' \<and> \<not> is_space c)),
           Rep 0 is_space, lit (CHR '',''), Rep 0 is_space, Eol]"

text \<open>
  \<^verbatim>\<open>^(?P<indent>\s*)(?P<name>[A-Za-z][A-Za-z0-9_-]*)\s*=\s*\{(?P<value>.*)\}\s*,?\s*$\<close>,
  the groups numbered 1, 2 and 3.
\<close>

definition FIELD_RE :: rx where
  "FIELD_RE =
     seqs [Bol, Grp 1 (Rep 0 is_space),
           Grp 2 (Seq (Cls is_ascii_alpha)
                      (Rep 0 (\<lambda>c. is_ascii_alpha c \<or> is_digit c \<or> c \<in> set ''_-''))),
           Rep 0 is_space, lit (CHR ''=''), Rep 0 is_space, lit (CHR ''{''),
           Grp 3 (Rep 0 (\<lambda>c. c \<noteq> CHR 10)), lit (CHR ''}''),
           Rep 0 is_space, Opt (lit (CHR '','')), Rep 0 is_space, Eol]"

type_synonym parsed = "string \<times> string \<times> field list \<times> string list"

text \<open>The loop over \<^verbatim>\<open>body_lines[:-1]\<close>: the state is \<^verbatim>\<open>fields\<close> with \<^verbatim>\<open>unknown\<close>.\<close>

fun body_match :: "string \<Rightarrow> rx_match option \<Rightarrow> field list \<times> string list
                     \<Rightarrow> field list \<times> string list" where
  "body_match body_line None (fields, unknown) = (fields, unknown @ [body_line])"
| "body_match body_line (Some fm) (fields, unknown) =
     (fields @ [(group 1 fm, group 2 fm, group 3 fm)], unknown)"

fun body_step :: "string \<Rightarrow> field list \<times> string list \<Rightarrow> field list \<times> string list" where
  "body_step body_line (fields, unknown) =
     (if py_rstrip body_line = [] then (fields, unknown @ [body_line])
      else body_match body_line (rx_match FIELD_RE (py_rstrip body_line)) (fields, unknown))"

primrec body_loop :: "string list \<Rightarrow> field list \<times> string list \<Rightarrow> field list \<times> string list" where
  "body_loop [] st = st"
| "body_loop (body_line # ls) st = body_loop ls (body_step body_line st)"

fun parse_header :: "rx_match option \<Rightarrow> string list \<Rightarrow> parsed option" where
  "parse_header None body_lines = None"
| "parse_header (Some m) body_lines =
     (case body_loop (butlast body_lines) ([], []) of
        (fields, unknown) \<Rightarrow> Some (group 1 m, group 2 m, fields, unknown))"

text \<open>\<open>None\<close> is the \<^verbatim>\<open>ValueError\<close> of an empty text or of a first line that is no header.\<close>

fun parse_lines :: "string list \<Rightarrow> parsed option" where
  "parse_lines [] = None"
| "parse_lines (l # body_lines) = parse_header (rx_match ENTRY_START_RE (py_rstrip l)) body_lines"

definition parse_entry :: "string \<Rightarrow> parsed option" where
  "parse_entry entry_text = parse_lines (splitlines entry_text)"

subsection \<open>\<^verbatim>\<open>main\<close>, from the text read to the text written\<close>



text \<open>The state of the second loop.\<close>

record run_state =
  normalized_entries :: "string list"
  seen :: "fingerprint set"
  dropped :: nat
  changed :: nat

text \<open>
  The end of the second loop's body for a record with the new flds \<open>new_fields\<close> and
  the fingerprint \<open>fp\<close>.
\<close>

definition emit_entry :: "parsed \<Rightarrow> field list \<Rightarrow> string" where
  "emit_entry p new_fields =
     (case p of (entry_type, key, flds, unknown) \<Rightarrow>
        build_entry entry_type key new_fields unknown (first_indent flds))"

definition keep_entry :: "parsed \<Rightarrow> field list \<Rightarrow> run_state \<Rightarrow> run_state" where
  "keep_entry p new_fields st =
     st\<lparr>changed := (if new_fields \<noteq> fst (snd (snd p)) then changed st + 1 else changed st),
        normalized_entries := normalized_entries st @ [emit_entry p new_fields]\<rparr>"

definition dedup_entry :: "parsed \<Rightarrow> field list \<Rightarrow> fingerprint \<Rightarrow> run_state \<Rightarrow> run_state" where
  "dedup_entry p new_fields fp st =
     (if any_fp fp
      then (if fp \<in> seen st then st\<lparr>dropped := dropped st + 1\<rparr>
            else keep_entry p new_fields (st\<lparr>seen := insert fp (seen st)\<rparr>))
      else keep_entry p new_fields st)"

text \<open>The normalized and ordered flds of a parsed record.\<close>

fun new_fields_of :: "(string \<Rightarrow> string option) \<Rightarrow> entries_map \<Rightarrow> parsed \<Rightarrow> field list" where
  "new_fields_of fromiso entries_map (entry_type, key, flds, unknown) =
     order_fields entry_type (normalize_fields fromiso entry_type key flds entries_map)"

fun fingerprint_of :: "parsed \<Rightarrow> field list \<Rightarrow> fingerprint" where
  "fingerprint_of (entry_type, key, flds, unknown) new_fields =
     entry_fingerprint entry_type key new_fields"

definition process_entry ::
    "(string \<Rightarrow> string option) \<Rightarrow> entries_map \<Rightarrow> parsed \<Rightarrow> field list \<Rightarrow> run_state \<Rightarrow> run_state" where
  "process_entry fromiso entries_map p new_fields st =
     dedup_entry p new_fields (fingerprint_of p new_fields) st"

definition main_step ::
    "(string \<Rightarrow> string option) \<Rightarrow> entries_map \<Rightarrow> parsed \<Rightarrow> run_state \<Rightarrow> run_state" where
  "main_step fromiso entries_map p st =
     (if fst p = []
      then st\<lparr>normalized_entries := normalized_entries st @ [join newline (snd (snd (snd p)))]\<rparr>
      else process_entry fromiso entries_map p (new_fields_of fromiso entries_map p) st)"


definition initial_state :: run_state where
  "initial_state = \<lparr>normalized_entries = [], seen = {}, dropped = 0, changed = 0\<rparr>"





subsection \<open>Notions used in the proofs\<close>

text \<open>\<open>nf'\<close> is \<open>nf\<close> with fields appended whose names are all in \<open>L\<close>.\<close>

definition appends_named :: "string set \<Rightarrow> field list \<Rightarrow> field list \<Rightarrow> bool" where
  "appends_named L nf nf' \<longleftrightarrow> (\<exists>ys. nf' = nf @ ys \<and> f_name ` set ys \<subseteq> L)"

text \<open>The names of the fields that \<^verbatim>\<open>normalize_fields\<close> makes itself.\<close>

definition made_names :: "string set" where
  "made_names = {''url'', ''urldate'', ''publisher'', ''address'', ''author'', ''title'',
                 ''year'', ''howpublished'', ''language''}"

subsection \<open>What the deduplicator is to produce\<close>







section \<open>Properties of the field orderer\<close>

lemma take_named_eq:
  "take_named ind name fs (ordered, used) =
     (if name \<in> used then (ordered, used)
      else (ordered @ map (reindent ind) (first_named name fs),
            used \<union> ({name} \<inter> f_name ` set fs)))"
  by (induction fs) (auto simp: first_named_def reindent_def f_name_def f_value_def)

lemma take_desired_eq:
  "distinct ds \<Longrightarrow> set ds \<inter> used = {} \<Longrightarrow>
   take_desired ind ds fs (ordered, used) =
     (ordered @ map (reindent ind) (concat (map (\<lambda>name. first_named name fs) ds)),
      used \<union> (set ds \<inter> f_name ` set fs))"
proof (induction ds arbitrary: ordered used)
  case Nil
  then show ?case by simp
next
  case (Cons d ds)
  have d: "d \<notin> used" using Cons.prems by auto
  have "set ds \<inter> (used \<union> ({d} \<inter> f_name ` set fs)) = {}"
    using Cons.prems by auto
  with Cons.IH [of "used \<union> ({d} \<inter> f_name ` set fs)"] Cons.prems d
  show ?case by (auto simp: take_named_eq)
qed

lemma filter_filter_name:
  "filter (\<lambda>g. f_name g \<noteq> n) (filter (\<lambda>f. f_name f \<notin> used) fs) =
   filter (\<lambda>f. f_name f \<notin> insert n used) fs"
  by (induction fs) auto

lemma take_remaining_eq:
  "take_remaining ind fs (ordered, used) =
     (ordered @ map (reindent ind) (first_occurrences (filter (\<lambda>f. f_name f \<notin> used) fs)),
      used \<union> f_name ` set fs)"
proof (induction fs arbitrary: ordered used)
  case Nil
  then show ?case by simp
next
  case (Cons f fs)
  obtain i n v where f: "f = (i, n, v)" by (cases f) auto
  show ?case
  proof (cases "n \<in> used")
    case True
    then show ?thesis using Cons.IH [of ordered used] f
      by (auto simp: f_name_def)
  next
    case False
    then show ?thesis
      using Cons.IH [of "ordered @ [(ind, n, v)]" "insert n used"] f
        filter_filter_name [of n used fs]
      by (auto simp: f_name_def f_value_def reindent_def)
  qed
qed

lemma filter_not_listed:
  "filter (\<lambda>f. f_name f \<notin> set ds \<inter> f_name ` set fs) fs =
   filter (\<lambda>f. f_name f \<notin> set ds) fs"
  by (rule filter_cong) auto

lemma order_fields_with_eq:
  assumes "distinct ds"
  shows "order_fields_with ds fs = map (reindent (first_indent fs)) (listed_first ds fs)"
proof -
  have "take_desired (first_indent fs) ds fs ([], {}) =
          (map (reindent (first_indent fs)) (concat (map (\<lambda>name. first_named name fs) ds)),
           set ds \<inter> f_name ` set fs)"
    using take_desired_eq [OF assms, of "{}" "first_indent fs" fs "[]"] by simp
  then have "order_fields_with ds fs =
      map (reindent (first_indent fs)) (concat (map (\<lambda>name. first_named name fs) ds))
      @ map (reindent (first_indent fs))
          (first_occurrences (filter (\<lambda>f. f_name f \<notin> set ds \<inter> f_name ` set fs) fs))"
    by (simp add: order_fields_with_def Let_def take_remaining_eq)
  then show ?thesis
    unfolding filter_not_listed by (simp add: listed_first_def)
qed

lemma distinct_desired_of: "distinct (desired_of t)"
proof -
  have "\<forall>p \<in> set order_map. distinct (snd p)"
    by (simp add: order_map_def)
  then show ?thesis
    by (auto simp: desired_of_def split: option.splits dest!: map_of_SomeD)
qed

lemma first_occurrences_subset: "set (first_occurrences xs) \<subseteq> set xs"
  by (induction xs rule: first_occurrences.induct) auto

lemma first_occurrences_names:
  "f_name ` set (first_occurrences xs) = f_name ` set xs"
proof (induction xs rule: first_occurrences.induct)
  case 1
  then show ?case by simp
next
  case (2 f fs)
  then show ?case by auto
qed

lemma first_occurrences_distinct: "distinct (map f_name (first_occurrences xs))"
proof (induction xs rule: first_occurrences.induct)
  case 1
  then show ?case by simp
next
  case (2 f fs)
  have "f_name f \<notin> f_name ` set (filter (\<lambda>g. f_name g \<noteq> f_name f) fs)"
    by auto
  then have "f_name f \<notin> f_name ` set (first_occurrences (filter (\<lambda>g. f_name g \<noteq> f_name f) fs))"
    using first_occurrences_subset by blast
  with 2 show ?case by simp
qed

lemma find_filter_name:
  "P n \<Longrightarrow> find (\<lambda>f. f_name f = n) (filter (\<lambda>f. P (f_name f)) fs) = find (\<lambda>f. f_name f = n) fs"
  by (induction fs) auto

lemma first_occurrences_find:
  "g \<in> set (first_occurrences xs) \<Longrightarrow> find (\<lambda>f. f_name f = f_name g) xs = Some g"
proof (induction xs rule: first_occurrences.induct)
  case 1
  then show ?case by simp
next
  case (2 f fs)
  show ?case
  proof (cases "g = f")
    case True
    then show ?thesis by simp
  next
    case False
    with 2 have g: "g \<in> set (first_occurrences (filter (\<lambda>h. f_name h \<noteq> f_name f) fs))"
      by simp
    then have "g \<in> set (filter (\<lambda>h. f_name h \<noteq> f_name f) fs)"
      using first_occurrences_subset by blast
    then have ne: "f_name g \<noteq> f_name f" by simp
    have "find (\<lambda>h. f_name h = f_name g) (filter (\<lambda>h. f_name h \<noteq> f_name f) fs) = Some g"
      using 2 g by simp
    then have "find (\<lambda>h. f_name h = f_name g) fs = Some g"
      using find_filter_name [of "\<lambda>n. n \<noteq> f_name f" "f_name g" fs] ne by simp
    then show ?thesis using ne by auto
  qed
qed

lemma find_SomeD: "find P xs = Some x \<Longrightarrow> P x \<and> x \<in> set xs"
  by (induction xs) (auto split: if_splits)

lemma first_named_find:
  assumes "g \<in> set (first_named n fs)"
  shows "find (\<lambda>f. f_name f = f_name g) fs = Some g \<and> f_name g = n"
proof -
  from assms have fnd: "find (\<lambda>f. f_name f = n) fs = Some g"
    by (cases "find (\<lambda>f. f_name f = n) fs") (simp_all add: first_named_def)
  then have "f_name g = n" by (rule find_SomeD [THEN conjunct1])
  with fnd show ?thesis by simp
qed

lemma first_named_names:
  "f_name ` set (first_named n fs) = {n} \<inter> f_name ` set fs"
proof (cases "find (\<lambda>f. f_name f = n) fs")
  case None
  then have "\<not> (\<exists>x. x \<in> set fs \<and> f_name x = n)"
    by (simp add: find_None_iff)
  then have "{n} \<inter> f_name ` set fs = {}" by blast
  moreover from None have "first_named n fs = []" by (simp add: first_named_def)
  ultimately show ?thesis by simp
next
  case (Some g)
  then have g: "f_name g = n \<and> g \<in> set fs" by (rule find_SomeD)
  then have "{n} \<inter> f_name ` set fs = {n}" by blast
  moreover from Some have "first_named n fs = [g]" by (simp add: first_named_def)
  ultimately show ?thesis using g by simp
qed

lemma concat_first_named_names:
  "f_name ` set (concat (map (\<lambda>n. first_named n fs) ds)) = set ds \<inter> f_name ` set fs"
proof (induction ds)
  case Nil
  then show ?case by simp
next
  case (Cons d ds)
  have "f_name ` set (concat (map (\<lambda>n. first_named n fs) (d # ds))) =
        f_name ` set (first_named d fs) \<union> f_name ` set (concat (map (\<lambda>n. first_named n fs) ds))"
    by (simp add: image_Un)
  also have "\<dots> = ({d} \<inter> f_name ` set fs) \<union> (set ds \<inter> f_name ` set fs)"
    by (simp only: first_named_names Cons.IH)
  also have "\<dots> = set (d # ds) \<inter> f_name ` set fs" by auto
  finally show ?case .
qed

lemma listed_first_find:
  "g \<in> set (listed_first ds fs) \<Longrightarrow> find (\<lambda>f. f_name f = f_name g) fs = Some g"
proof -
  assume "g \<in> set (listed_first ds fs)"
  then consider n where "g \<in> set (first_named n fs)"
    | "g \<in> set (first_occurrences (filter (\<lambda>f. f_name f \<notin> set ds) fs))"
    by (auto simp: listed_first_def)
  then show ?thesis
  proof cases
    case 1
    then show ?thesis using first_named_find by blast
  next
    case 2
    then have "g \<in> set (filter (\<lambda>f. f_name f \<notin> set ds) fs)"
      using first_occurrences_subset by blast
    then have nd: "f_name g \<notin> set ds" by simp
    from 2 have "find (\<lambda>f. f_name f = f_name g) (filter (\<lambda>f. f_name f \<notin> set ds) fs) = Some g"
      by (rule first_occurrences_find)
    then show ?thesis
      using find_filter_name [of "\<lambda>n. n \<notin> set ds" "f_name g" fs] nd by simp
  qed
qed

lemma listed_first_names: "f_name ` set (listed_first ds fs) = f_name ` set fs"
proof -
  have "f_name ` set (listed_first ds fs) =
        (set ds \<inter> f_name ` set fs) \<union> f_name ` set (filter (\<lambda>f. f_name f \<notin> set ds) fs)"
    by (simp only: listed_first_def set_append image_Un concat_first_named_names
        first_occurrences_names)
  also have "\<dots> = f_name ` set fs" by auto
  finally show ?thesis .
qed

lemma distinct_concat_first_named:
  "distinct ds \<Longrightarrow> distinct (map f_name (concat (map (\<lambda>n. first_named n fs) ds)))"
proof (induction ds)
  case Nil
  then show ?case by simp
next
  case (Cons d ds)
  have one: "distinct (map f_name (first_named d fs))"
    by (simp add: first_named_def split: option.splits)
  have "f_name ` set (concat (map (\<lambda>n. first_named n fs) ds)) \<subseteq> set ds"
    by (simp only: concat_first_named_names) blast
  moreover have "f_name ` set (first_named d fs) \<subseteq> {d}"
    by (simp only: first_named_names) blast
  ultimately have "f_name ` set (first_named d fs) \<inter>
        f_name ` set (concat (map (\<lambda>n. first_named n fs) ds)) = {}"
    using Cons.prems by auto
  with Cons one show ?case by (simp add: image_Un)
qed

lemma listed_first_distinct:
  assumes "distinct ds"
  shows "distinct (map f_name (listed_first ds fs))"
proof -
  have a: "f_name ` set (concat (map (\<lambda>n. first_named n fs) ds)) \<subseteq> set ds"
    by (simp only: concat_first_named_names) blast
  have "f_name ` set (first_occurrences (filter (\<lambda>f. f_name f \<notin> set ds) fs))
          = f_name ` set (filter (\<lambda>f. f_name f \<notin> set ds) fs)"
    by (rule first_occurrences_names)
  then have b: "f_name ` set (first_occurrences (filter (\<lambda>f. f_name f \<notin> set ds) fs)) \<inter> set ds = {}"
    by auto
  from a b have "f_name ` set (concat (map (\<lambda>n. first_named n fs) ds)) \<inter>
      f_name ` set (first_occurrences (filter (\<lambda>f. f_name f \<notin> set ds) fs)) = {}"
    by blast
  then show ?thesis
    using distinct_concat_first_named [OF assms] first_occurrences_distinct
    by (simp add: listed_first_def)
qed

lemma f_name_reindent [simp]: "f_name (reindent ind f) = f_name f"
  by (simp add: reindent_def f_name_def)

lemma f_value_reindent [simp]: "f_value (reindent ind f) = f_value f"
  by (simp add: reindent_def f_value_def f_name_def)

lemma first_occurrences_distinct_id:
  "distinct (map f_name xs) \<Longrightarrow> first_occurrences xs = xs"
proof (induction xs)
  case Nil
  then show ?case by simp
next
  case (Cons f fs)
  then have "\<forall>g \<in> set fs. f_name g \<noteq> f_name f"
    by (metis distinct.simps(2) imageI list.simps(9) set_map)
  then have "filter (\<lambda>g. f_name g \<noteq> f_name f) fs = fs"
    by (simp only: filter_id_conv) 
  with Cons show ?case by simp
qed



text \<open>
  C8 (as amended). For every record type and field list, \<^verbatim>\<open>order_fields\<close> emits, for each
  name of the type's priority list in list order, the first field of that name, then the
  first occurrence of every other name in input order; a later field that repeats a name is
  not emitted, and every emitted field carries the indentation of the first input field.
  For a record type absent from the mapping the output is the input without the later
  fields that repeat a name; it is the input itself when the names are distinct and the
  indentation is uniform.
\<close>

theorem order_fields_listed_first:
  "order_fields t fs = order_fields_spec t fs
   \<and> (map_of order_map (py_lower t) = None \<longrightarrow>
        order_fields t fs = map (reindent (first_indent fs)) (first_occurrences fs))
   \<and> (map_of order_map (py_lower t) = None \<and> distinct (map f_name fs)
        \<and> (\<forall>f \<in> set fs. f_indent f = first_indent fs) \<longrightarrow> order_fields t fs = fs)"
proof -
  have spec: "order_fields t fs = order_fields_spec t fs"
    by (simp add: order_fields_def order_fields_spec_def order_fields_with_eq
        distinct_desired_of)
  have absent: "order_fields t fs = map (reindent (first_indent fs)) (first_occurrences fs)"
    if "map_of order_map (py_lower t) = None"
  proof -
    from that have "desired_of t = []" by (simp add: desired_of_def)
    then show ?thesis
      by (simp add: spec order_fields_spec_def listed_first_def)
  qed
  have same: "order_fields t fs = fs"
    if n: "map_of order_map (py_lower t) = None" and d: "distinct (map f_name fs)"
      and i: "\<forall>f \<in> set fs. f_indent f = first_indent fs"
  proof -
    have "map (reindent (first_indent fs)) fs = map (\<lambda>f. f) fs"
    proof (rule map_cong [OF refl])
      fix f assume "f \<in> set fs"
      with i have "f_indent f = first_indent fs" by simp
      then show "reindent (first_indent fs) f = f"
        by (cases f) (simp add: reindent_def f_indent_def f_name_def f_value_def)
    qed
    then show ?thesis
      using absent [OF n] first_occurrences_distinct_id [OF d] by simp
  qed
  from spec absent same show ?thesis by blast
qed

theorem order_fields_listed_first_witness:
  "map_of order_map (py_lower ''patent'') = None
   \<and> distinct (map f_name [(''  '', ''year'', ''2020''), (''  '', ''title'', ''T'')])
   \<and> order_fields ''patent'' [(''  '', ''year'', ''2020''), (''  '', ''title'', ''T'')]
       = [(''  '', ''year'', ''2020''), (''  '', ''title'', ''T'')]"
proof -
  have a: "map_of order_map (py_lower ''patent'') = None"
    by code_simp
  have b: "distinct (map f_name [(''  '', ''year'', ''2020''), (''  '', ''title'', ''T'')])"
    by (simp add: f_name_def)
  have c: "\<forall>f \<in> set [(''  '', ''year'', ''2020''), (''  '', ''title'', ''T'')].
         f_indent f = first_indent [(''  '', ''year'', ''2020''), (''  '', ''title'', ''T'')]"
    by (simp add: f_indent_def first_indent_def)
  from a b c
    order_fields_listed_first [of "''patent''"
      "[(''  '', ''year'', ''2020''), (''  '', ''title'', ''T'')]"]
  show ?thesis by blast
qed

text \<open>
  C8 as stated fails: of two fields called \<^verbatim>\<open>title\<close> in a record of a type absent from
  the mapping, the second is not among the emitted fields.
\<close>

theorem order_fields_drops_repeated_name:
  "order_fields ''patent'' [(''  '', ''title'', ''A''), (''  '', ''title'', ''B'')]
     = [(''  '', ''title'', ''A'')]
   \<and> (''  '', ''title'', ''B'')
       \<notin> set (order_fields ''patent'' [(''  '', ''title'', ''A''), (''  '', ''title'', ''B'')])"
  by code_simp

text \<open>
  C10. The output of \<^verbatim>\<open>order_fields\<close> holds each field name at most once, holds every name of
  the input, and the field it holds for a name is the first input field of that name
  (its value is that field's value): later fields of the same name are discarded.
\<close>

theorem order_fields_first_of_each_name:
  "distinct (map f_name (order_fields t fs))
   \<and> f_name ` set (order_fields t fs) = f_name ` set fs
   \<and> (\<forall>g \<in> set (order_fields t fs).
         \<exists>f. find (\<lambda>f. f_name f = f_name g) fs = Some f \<and> f_value g = f_value f)"
proof -
  let ?ind = "first_indent fs" and ?ds = "desired_of t"
  have eq: "order_fields t fs = map (reindent ?ind) (listed_first ?ds fs)"
    by (simp add: order_fields_def order_fields_with_eq distinct_desired_of)
  have names: "map f_name (order_fields t fs) = map f_name (listed_first ?ds fs)"
    by (simp add: eq comp_def)
  have d: "distinct (map f_name (order_fields t fs))"
    by (simp only: names listed_first_distinct [OF distinct_desired_of])
  have s: "f_name ` set (order_fields t fs) = f_name ` set fs"
  proof -
    have "f_name ` set (order_fields t fs) = set (map f_name (order_fields t fs))" by simp
    also have "\<dots> = f_name ` set (listed_first ?ds fs)" by (simp only: names set_map)
    finally show ?thesis by (simp only: listed_first_names)
  qed
  have f: "\<exists>f. find (\<lambda>f. f_name f = f_name g) fs = Some f \<and> f_value g = f_value f"
    if "g \<in> set (order_fields t fs)" for g
  proof -
    from that obtain h where h: "h \<in> set (listed_first ?ds fs)" and g: "g = reindent ?ind h"
      by (auto simp: eq)
    from h have "find (\<lambda>f. f_name f = f_name h) fs = Some h" by (rule listed_first_find)
    with g show ?thesis by simp
  qed
  from d s f show ?thesis by blast
qed

theorem order_fields_first_of_each_name_witness:
  "order_fields ''Book'' [(''  '', ''year'', ''2020''), ('' '', ''title'', ''A''),
                          ([], ''year'', ''1999''), ([], ''title'', ''B'')]
     = [(''  '', ''title'', ''A''), (''  '', ''year'', ''2020'')]
   \<and> distinct (map f_name (order_fields ''Book'' [(''  '', ''year'', ''2020''),
        ('' '', ''title'', ''A''), ([], ''year'', ''1999''), ([], ''title'', ''B'')]))
   \<and> f_name ` set (order_fields ''Book'' [(''  '', ''year'', ''2020''),
        ('' '', ''title'', ''A''), ([], ''year'', ''1999''), ([], ''title'', ''B'')])
       = f_name ` set [(''  '', ''year'', ''2020''),
        ('' '', ''title'', ''A''), ([], ''year'', ''1999''), ([], ''title'', ''B'')]"
proof -
  have "order_fields ''Book'' [(''  '', ''year'', ''2020''), ('' '', ''title'', ''A''),
                          ([], ''year'', ''1999''), ([], ''title'', ''B'')]
     = [(''  '', ''title'', ''A''), (''  '', ''year'', ''2020'')]"
    by code_simp
  with order_fields_first_of_each_name [of "''Book''" "[(''  '', ''year'', ''2020''),
        ('' '', ''title'', ''A''), ([], ''year'', ''1999''), ([], ''title'', ''B'')]"]
  show ?thesis by blast
qed

section \<open>The date parser\<close>

lemma months_range: "map_of months k = Some m \<Longrightarrow> 1 \<le> m \<and> m \<le> 12"
proof -
  assume "map_of months k = Some m"
  then have "(k, m) \<in> set months" by (rule map_of_SomeD)
  then have "m \<in> snd ` set months" by force
  also have "snd ` set months = {1, 2, 3, 4, 5, 6, 7, 8, 9, 10, 11, 12}"
    by (simp add: months_def) 
  finally show ?thesis by auto
qed

lemma date_of_parts_shape:
  "date_of_parts fromiso s parts = None
   \<or> (\<exists>p0 p1 p2 year month day.
         parts = [p0, p1, p2] \<and> py_int p0 = Some day \<and> py_int p2 = Some year
         \<and> map_of months (take 3 p1) = Some month \<and> 1 \<le> month \<and> month \<le> 12
         \<and> date_of_parts fromiso s parts = Some (fmt_date year month day))
   \<or> date_of_parts fromiso s parts = fromiso s"
  by (auto simp: date_of_parts_def dest: months_range
      split: list.splits option.splits if_splits)

text \<open>
  C5 (as amended). For every input text the date parser yields no date, or the text
  \<^verbatim>\<open>year-month-day\<close> made of the integers read from the third and the first of three
  words, padded with zeros to four and two places at least and not checked against any
  range, with the month, 01 to 12, that the table gives for the first three letters of
  the second word, or what the standard library reads from the cleaned text as an ISO
  date. \<^verbatim>\<open>25 mar. 2025\<close> becomes \<^verbatim>\<open>2025-03-25\<close> and \<^verbatim>\<open>17 de abril de 2025\<close> becomes
  \<^verbatim>\<open>2025-04-17\<close>.
\<close>

theorem normalize_date_pt_shape:
  "(normalize_date_pt fromiso s = None
    \<or> (\<exists>p0 p1 p2 year month day.
          split_ws (clean_date s) = [p0, p1, p2] \<and> py_int p0 = Some day
          \<and> py_int p2 = Some year \<and> map_of months (take 3 p1) = Some month
          \<and> 1 \<le> month \<and> month \<le> 12
          \<and> normalize_date_pt fromiso s
              = Some (fmt_d 4 year @ ''-'' @ fmt_d 2 (int month) @ ''-'' @ fmt_d 2 day))
    \<or> normalize_date_pt fromiso s = fromiso (clean_date s))
   \<and> normalize_date_pt fromiso ''25 mar. 2025'' = Some ''2025-03-25''
   \<and> normalize_date_pt fromiso ''17 de abril de 2025'' = Some ''2025-04-17''"
proof -
  have a: "normalize_date_pt fromiso ''25 mar. 2025'' = Some ''2025-03-25''"
    by code_simp
  have b: "normalize_date_pt fromiso ''17 de abril de 2025'' = Some ''2025-04-17''"
    by code_simp
  from date_of_parts_shape [of fromiso "clean_date s" "split_ws (clean_date s)"] a b
  show ?thesis
    unfolding normalize_date_pt_def fmt_date_def by blast
qed

theorem normalize_date_pt_shape_witness:
  "\<forall>fromiso. normalize_date_pt fromiso ''25 mar. 2025'' = Some ''2025-03-25''
     \<and> normalize_date_pt fromiso ''17 de abril de 2025'' = Some ''2025-04-17''"
  using normalize_date_pt_shape [of _ "''''"] by blast

text \<open>
  C5 as stated fails: a year of five digits and a day of three digits come out as they
  went in, and the day 99 is no day of January.
\<close>

theorem normalize_date_pt_not_a_date:
  "\<forall>fromiso. normalize_date_pt fromiso ''1 jan 20255'' = Some ''20255-01-01''
     \<and> normalize_date_pt fromiso ''123 jan 2025'' = Some ''2025-01-123''
     \<and> normalize_date_pt fromiso ''99 jan 2025'' = Some ''2025-01-99''
     \<and> rx_match rx_ymd ''20255-01-01'' = None
     \<and> rx_match rx_ymd ''2025-01-123'' = None"
proof -
  have "normalize_date_pt fromiso ''1 jan 20255'' = Some ''20255-01-01''" for fromiso
    by code_simp
  moreover have "normalize_date_pt fromiso ''123 jan 2025'' = Some ''2025-01-123''" for fromiso
    by code_simp
  moreover have "normalize_date_pt fromiso ''99 jan 2025'' = Some ''2025-01-99''" for fromiso
    by code_simp
  moreover have "rx_match rx_ymd ''20255-01-01'' = None" by code_simp
  moreover have "rx_match rx_ymd ''2025-01-123'' = None" by code_simp
  ultimately show ?thesis by blast
qed

section \<open>Author names\<close>

text \<open>
  C6. The author formatter maps the comma form \<^verbatim>\<open>Silva, Jo\xe3o\<close> and the natural order
  \<^verbatim>\<open>Jo\xe3o Silva\<close> to the same text \<^verbatim>\<open>SILVA, Jo\xe3o\<close> (U+00E3 is the a with tilde).
\<close>

theorem format_author_abnt_both_forms:
  "format_author_abnt (''Silva, Jo'' @ [CHR 0xE3] @ ''o'') = ''SILVA, Jo'' @ [CHR 0xE3] @ ''o''
   \<and> format_author_abnt (''Jo'' @ [CHR 0xE3] @ ''o Silva'') = ''SILVA, Jo'' @ [CHR 0xE3] @ ''o''"
  by code_simp

text \<open>
  C7 (as amended). In the author list, a part whose token is \<^verbatim>\<open>others\<close> or \<^verbatim>\<open>others.\<close>
  (after white space, braces and blanks around it are stripped) is emitted as
  \<^verbatim>\<open>others.\<close>, with a full stop.
\<close>

theorem author_part_others:
  "strip_chars ''{} '' (py_strip p) = ''others'' \<or> strip_chars ''{} '' (py_strip p) = ''others.''
   \<Longrightarrow> author_part p = [''others.'']"
proof -
  have a: "author_token ''others'' = [''others.'']" by code_simp
  have b: "author_token ''others.'' = [''others.'']" by code_simp
  assume "strip_chars ''{} '' (py_strip p) = ''others''
    \<or> strip_chars ''{} '' (py_strip p) = ''others.''"
  with a b show ?thesis unfolding author_part_def by auto
qed

theorem author_part_others_witness:
  "strip_chars ''{} '' (py_strip '' {others} '') = ''others''
   \<and> author_part '' {others} '' = [''others.'']"
proof -
  have "strip_chars ''{} '' (py_strip '' {others} '') = ''others''" by code_simp
  with author_part_others [of "'' {others} ''"] show ?thesis by blast
qed

text \<open>C7 as stated fails: the token \<^verbatim>\<open>others\<close> comes out with a full stop added.\<close>

theorem others_gets_full_stop:
  "normalize_author_list_abnt ''Silva, J and others'' = ''SILVA, J and others.''
   \<and> author_part ''others'' = [''others.'']"
  by code_simp

section \<open>Field normalization only appends\<close>

lemma appends_named_refl: "appends_named L nf nf"
  by (simp add: appends_named_def)

lemma appends_named_trans:
  "appends_named L a b \<Longrightarrow> appends_named L' b c \<Longrightarrow> appends_named (L \<union> L') a c"
  by (fastforce simp: appends_named_def)

lemma appends_named_mono: "appends_named L a b \<Longrightarrow> L \<subseteq> L' \<Longrightarrow> appends_named L' a b"
  by (auto simp: appends_named_def)

lemma appends_named_step:
  "appends_named L a b \<Longrightarrow> appends_named L' b c \<Longrightarrow> L \<subseteq> M \<Longrightarrow> L' \<subseteq> M \<Longrightarrow> appends_named M a c"
  using appends_named_trans [of L a b L' c] appends_named_mono [of "L \<union> L'" a c M] by blast

lemma appends_named_one: "n \<in> L \<Longrightarrow> appends_named L nf (nf @ [(i, n, v)])"
  by (simp add: appends_named_def f_name_def)

lemma appends_named_names:
  assumes "appends_named L nf nf'"
  shows "f_name ` set nf' \<subseteq> f_name ` set nf \<union> L"
proof -
  from assms obtain ys where ys: "nf' = nf @ ys" "f_name ` set ys \<subseteq> L"
    unfolding appends_named_def by blast
  have "f_name ` set nf' = f_name ` set nf \<union> f_name ` set ys"
    by (simp add: ys(1) image_Un)
  with ys(2) show ?thesis by blast
qed

lemma appends_named_keeps: "appends_named L nf nf' \<Longrightarrow> has_name n nf \<Longrightarrow> has_name n nf'"
  by (auto simp: appends_named_def has_name_def)

lemma add_field_appends: "n \<in> L \<Longrightarrow> appends_named L nf (add_field n v nf)"
  by (simp add: add_field_def appends_named_one)

lemma add_unless_appends: "n \<in> L \<Longrightarrow> appends_named L nf (add_unless b n v nf)"
  by (simp add: add_unless_def add_field_appends appends_named_refl)

lemma field_emit_appends:
  "appends_named {lname} nf (fst (field_emit key indent lname v (nf, note)))"
  by (simp add: appends_named_refl appends_named_one)

lemma link_field_names: "f_name ` set (link_field indent n found nf) \<subseteq> {n}"
  by (auto simp: link_field_def f_name_def split: option.splits)

lemma add_links_appends:
  "appends_named {''url'', ''urldate''} nf (add_links indent found nf)"
proof (cases found)
  case (Pair u d)
  have "f_name ` set (link_field indent ''url'' u nf @ link_field indent ''urldate'' d nf)
          \<subseteq> {''url'', ''urldate''}"
    using link_field_names [of indent "''url''" u nf]
      link_field_names [of indent "''urldate''" d nf] by auto
  then show ?thesis unfolding appends_named_def Pair add_links.simps by blast
qed

lemma field_value_step_appends:
  "appends_named {lname, ''url'', ''urldate''} nf
     (fst (field_value_step fromiso key indent lname v (nf, nt)))"
proof -
  have a: "appends_named {l, ''url'', ''urldate''} nf (fst (field_emit key indent l w (nf, n)))"
    for w n l
    by (rule appends_named_mono [OF field_emit_appends]) simp
  have b: "appends_named {l, ''url'', ''urldate''} nf
             (fst (field_emit key indent l w (add_links indent found nf, n)))" for w n found l
    by (rule appends_named_step [OF add_links_appends field_emit_appends]) simp_all
  show ?thesis
    unfolding field_value_step.simps using a b
    by (simp add: appends_named_refl del: field_emit.simps)
qed

lemma field_step_appends:
  "appends_named {py_lower (f_name f), ''url'', ''urldate''} nf
     (fst (field_step fromiso key f (nf, note)))"
proof (cases f)
  case (fields indent name val)
  show ?thesis
    unfolding fields field_step.simps
    using field_value_step_appends [of "py_lower name" nf fromiso key indent _ "note"]
    by (simp add: f_name_def)
qed

lemma field_loop_appends:
  "appends_named (py_lower ` f_name ` set fs \<union> {''url'', ''urldate''}) nf
     (fst (field_loop fromiso key fs (nf, note)))"
proof (induction fs arbitrary: nf "note")
  case Nil
  then show ?case by (simp add: appends_named_refl)
next
  case (Cons f fs)
  obtain nf1 note1 where s: "field_step fromiso key f (nf, note) = (nf1, note1)"
    by (cases "field_step fromiso key f (nf, note)") auto
  have a: "appends_named {py_lower (f_name f), ''url'', ''urldate''} nf nf1"
    using field_step_appends [of f nf fromiso key "note"] s by simp
  have b: "appends_named (py_lower ` f_name ` set fs \<union> {''url'', ''urldate''}) nf1
             (fst (field_loop fromiso key fs (nf1, note1)))"
    by (rule Cons.IH)
  show ?case
    unfolding field_loop.simps s
    by (rule appends_named_step [OF a b]) auto
qed

lemma bardin_defaults_appends: "appends_named made_names nf (bardin_defaults key nf)"
proof -
  have "appends_named made_names nf
      (add_unless p ''address'' sao_paulo (add_unless q ''publisher'' edicoes_70 nf))" for p q
    by (rule appends_named_step [OF add_unless_appends add_unless_appends,
          of "''publisher''" made_names "''address''" made_names])
       (simp_all add: made_names_def)
  then show ?thesis by (simp add: bardin_defaults_def appends_named_refl)
qed

lemma add_note_url_appends: "appends_named made_names nf (add_note_url u nf)"
  by (cases u) (simp_all add: appends_named_refl add_field_appends made_names_def)

lemma add_note_urldate_appends: "appends_named made_names nf (add_note_urldate d nf)"
  by (cases d) (simp_all add: appends_named_refl add_field_appends made_names_def)

lemma note_links_appends: "appends_named made_names nf (note_links fromiso note nf)"
proof (cases "note")
  case None
  then show ?thesis by (simp add: appends_named_refl)
next
  case (Some nv)
  obtain u d where e: "extract_url_and_access fromiso nv = (u, d)"
    by (cases "extract_url_and_access fromiso nv") auto
  have "appends_named made_names nf (add_note_urldate d (add_note_url u nf))"
    by (rule appends_named_step [OF add_note_url_appends add_note_urldate_appends]) simp_all
  then show ?thesis by (simp add: Some e appends_named_refl)
qed

lemma misc_author_appends: "appends_named made_names nf (misc_author k nf)"
  by (simp add: misc_author_def appends_named_refl add_field_appends made_names_def)

lemma misc_title_appends: "appends_named made_names nf (misc_title b note nf)"
proof (cases "note")
  case None
  then show ?thesis by (simp add: appends_named_refl)
next
  case (Some nv)
  have "appends_named made_names nf (add_title t nf)" for t
    by (cases t) (simp_all add: appends_named_refl add_field_appends made_names_def)
  then show ?thesis by (simp add: Some appends_named_refl)
qed

lemma misc_year_appends: "appends_named made_names nf (misc_year nf)"
proof -
  have "appends_named made_names nf (year_from f nf)" for f
    by (cases f) (simp_all add: appends_named_refl add_field_appends made_names_def)
  then show ?thesis by (simp add: misc_year_def appends_named_refl)
qed

lemma misc_howpublished_appends: "appends_named made_names nf (misc_howpublished nf)"
  by (simp add: misc_howpublished_def appends_named_refl add_field_appends made_names_def)

lemma misc_enrich_appends: "appends_named made_names nf (misc_enrich t key note nf)"
proof -
  have a: "appends_named made_names nf (misc_title b note (misc_author k nf))" for b k
    by (rule appends_named_step [OF misc_author_appends misc_title_appends]) simp_all
  have b: "appends_named made_names nf (misc_year (misc_title b note (misc_author k nf)))" for b k
    by (rule appends_named_step [OF a misc_year_appends]) simp_all
  have "appends_named made_names nf
          (misc_howpublished (misc_year (misc_title b note (misc_author k nf))))" for b k
    by (rule appends_named_step [OF b misc_howpublished_appends]) simp_all
  then show ?thesis by (simp add: misc_enrich_def appends_named_refl)
qed

lemma detect_language_appends: "appends_named made_names nf (detect_language nf)"
  by (simp add: detect_language_def appends_named_refl add_field_appends made_names_def)

lemma after_loop_appends:
  "appends_named made_names nf (after_loop fromiso t key (nf, note))"
proof -
  have a: "appends_named made_names nf (note_links fromiso note (bardin_defaults key nf))"
    by (rule appends_named_step [OF bardin_defaults_appends note_links_appends]) simp_all
  have b: "appends_named made_names nf
             (misc_enrich t key note (note_links fromiso note (bardin_defaults key nf)))"
    by (rule appends_named_step [OF a misc_enrich_appends]) simp_all
  show ?thesis
    unfolding after_loop.simps
    by (rule appends_named_step [OF b detect_language_appends]) simp_all
qed

lemma normalize_fields_names:
  "f_name ` set (normalize_fields fromiso t key flds entries_map)
     \<subseteq> py_lower ` f_name ` set (merge_crossref flds entries_map) \<union> made_names"
proof -
  let ?m = "merge_crossref flds entries_map"
  obtain nf nt where l: "field_loop fromiso key ?m ([], None) = (nf, nt)"
    by (cases "field_loop fromiso key ?m ([], None)") auto
  have a: "appends_named (py_lower ` f_name ` set ?m \<union> {''url'', ''urldate''}) [] nf"
    using field_loop_appends [of ?m "[]" fromiso key None] l by simp
  have b: "appends_named made_names nf (after_loop fromiso t key (nf, nt))"
    by (rule after_loop_appends)
  have "appends_named (py_lower ` f_name ` set ?m \<union> made_names) []
          (after_loop fromiso t key (nf, nt))"
    by (rule appends_named_step [OF a b]) (auto simp: made_names_def)
  then have "f_name ` set (after_loop fromiso t key (nf, nt))
      \<subseteq> f_name ` set [] \<union> (py_lower ` f_name ` set ?m \<union> made_names)"
    by (rule appends_named_names)
  then show ?thesis
    unfolding normalize_fields_def l by simp
qed

section \<open>Cross-references\<close>

lemma crossref_step:
  "py_lower name = ''crossref'' \<Longrightarrow>
   field_step fromiso key (indent, name, val) (nf, nt)
     = (nf @ [(indent, ''crossref'', py_strip val)], nt)"
  by (simp add: rewrite_value_def url_value_def doi_value_def author_value_def holds_link_def
      bardin_value_def)

lemma field_loop_keeps:
  "has_name n nf \<Longrightarrow> has_name n (fst (field_loop fromiso key fs (nf, nt)))"
  using field_loop_appends [of fs nf fromiso key nt] appends_named_keeps by blast

lemma field_loop_crossref:
  "\<exists>f \<in> set fs. py_lower (f_name f) = ''crossref'' \<Longrightarrow>
   has_name ''crossref'' (fst (field_loop fromiso key fs (nf, nt)))"
proof (induction fs arbitrary: nf nt)
  case Nil
  then show ?case by simp
next
  case (Cons f fs)
  obtain indent name val where f: "f = (indent, name, val)" by (cases f) auto
  show ?case
  proof (cases "py_lower name = ''crossref''")
    case True
    have "has_name ''crossref'' (nf @ [(indent, ''crossref'', py_strip val)])"
      by (simp add: has_name_def f_name_def)
    then show ?thesis
      unfolding f field_loop.simps crossref_step [OF True]
      by (rule field_loop_keeps)
  next
    case False
    with Cons.prems f have ex: "\<exists>f \<in> set fs. py_lower (f_name f) = ''crossref''"
      by (auto simp: f_name_def)
    obtain nf1 nt1 where s: "field_step fromiso key f (nf, nt) = (nf1, nt1)"
      by (cases "field_step fromiso key f (nf, nt)") auto
    show ?thesis
      unfolding field_loop.simps s by (rule Cons.IH [OF ex])
  qed
qed

lemma crossref_key_field:
  "crossref_key flds = Some ck \<Longrightarrow> \<exists>f \<in> set flds. py_lower (f_name f) = ''crossref''"
proof -
  assume "crossref_key flds = Some ck"
  then obtain f where "find (\<lambda>f. py_lower (f_name f) = ''crossref'') flds = Some f"
    by (auto simp: crossref_key_def split: option.splits)
  then have "py_lower (f_name f) = ''crossref'' \<and> f \<in> set flds" by (rule find_SomeD)
  then show ?thesis by blast
qed

lemma after_loop_keeps:
  "has_name n nf \<Longrightarrow> has_name n (after_loop fromiso t key (nf, nt))"
  using after_loop_appends [of nf fromiso t key nt] appends_named_keeps by blast

lemma merge_crossref_known:
  assumes "crossref_key flds = Some ck" and "ck \<noteq> []" and "map_of entries_map ck = Some parent"
  shows "''crossref'' \<notin> py_lower ` f_name ` set (merge_crossref flds entries_map)"
proof -
  obtain pt pf pu where p: "parent = (pt, pf, pu)" by (cases parent) auto
  have "merge_crossref flds entries_map =
          filter (\<lambda>f. py_lower (f_name f) \<noteq> ''crossref'')
            (flds @ inherited (map (\<lambda>f. py_lower (f_name f)) flds) pf)"
    using assms p by (simp add: merge_crossref_def)
  then show ?thesis by auto
qed

lemma merge_crossref_unknown:
  assumes "crossref_key flds = Some ck" and "ck = [] \<or> map_of entries_map ck = None"
  shows "merge_crossref flds entries_map = flds"
  using assms by (auto simp: merge_crossref_def)

lemma merge_crossref_empty: "merge_crossref flds [] = flds"
  by (simp add: merge_crossref_def split: option.splits)

text \<open>
  C1 (as amended). For a record with a field named \<^verbatim>\<open>crossref\<close> in any case: when its
  stripped value is not empty and names a key of the record index, no field called
  \<^verbatim>\<open>crossref\<close> is in the normalized field list; when the value is empty or names no key
  of the index, no field is inherited (the result is that of the record's own fields),
  and the \<^verbatim>\<open>crossref\<close> field stays in the normalized field list.
\<close>

theorem normalize_fields_crossref:
  assumes "crossref_key flds = Some ck"
  shows "(ck \<noteq> [] \<and> map_of entries_map ck \<noteq> None \<longrightarrow>
            \<not> has_name ''crossref'' (normalize_fields fromiso t key flds entries_map))
         \<and> (ck = [] \<or> map_of entries_map ck = None \<longrightarrow>
              merge_crossref flds entries_map = flds
              \<and> normalize_fields fromiso t key flds entries_map
                  = normalize_fields fromiso t key flds []
              \<and> has_name ''crossref'' (normalize_fields fromiso t key flds entries_map))"
proof (intro conjI impI)
  assume "ck \<noteq> [] \<and> map_of entries_map ck \<noteq> None"
  then obtain parent where k: "ck \<noteq> []" "map_of entries_map ck = Some parent" by auto
  have "''crossref'' \<notin> py_lower ` f_name ` set (merge_crossref flds entries_map)"
    by (rule merge_crossref_known [OF assms k])
  moreover have "''crossref'' \<notin> made_names" by (simp add: made_names_def)
  ultimately have "''crossref'' \<notin> f_name ` set (normalize_fields fromiso t key flds entries_map)"
    using normalize_fields_names [of fromiso t key flds entries_map] by blast
  then show "\<not> has_name ''crossref'' (normalize_fields fromiso t key flds entries_map)"
    by (simp add: has_name_def)
next
  assume u: "ck = [] \<or> map_of entries_map ck = None"
  show m: "merge_crossref flds entries_map = flds"
    by (rule merge_crossref_unknown [OF assms u])
  show "normalize_fields fromiso t key flds entries_map = normalize_fields fromiso t key flds []"
    by (simp add: normalize_fields_def m merge_crossref_empty)
  obtain nf nt where l: "field_loop fromiso key flds ([], None) = (nf, nt)"
    by (cases "field_loop fromiso key flds ([], None)") auto
  have "has_name ''crossref'' (fst (field_loop fromiso key flds ([], None)))"
    by (rule field_loop_crossref [OF crossref_key_field [OF assms]])
  then have "has_name ''crossref'' nf" by (simp add: l)
  then have "has_name ''crossref'' (after_loop fromiso t key (nf, nt))"
    by (rule after_loop_keeps)
  then show "has_name ''crossref'' (normalize_fields fromiso t key flds entries_map)"
    by (simp add: normalize_fields_def m l)
qed

theorem normalize_fields_crossref_witness:
  "\<forall>fromiso.
     crossref_key [(''  '', ''Crossref'', '' p ''), (''  '', ''title'', ''T'')] = Some ''p''
     \<and> map_of [(''p'', ''book'', [(''  '', ''year'', ''2020''), (''  '', ''title'', ''P'')], [])] ''p''
         = Some (''book'', [(''  '', ''year'', ''2020''), (''  '', ''title'', ''P'')], [])
     \<and> \<not> has_name ''crossref''
           (normalize_fields fromiso ''book'' ''k''
              [(''  '', ''Crossref'', '' p ''), (''  '', ''title'', ''T'')]
              [(''p'', ''book'', [(''  '', ''year'', ''2020''), (''  '', ''title'', ''P'')], [])])
     \<and> map_of [(''q'', ''book'', [(''  '', ''year'', ''2020'')], [])] ''p'' = None
     \<and> has_name ''crossref''
           (normalize_fields fromiso ''book'' ''k''
              [(''  '', ''Crossref'', '' p ''), (''  '', ''title'', ''T'')]
              [(''q'', ''book'', [(''  '', ''year'', ''2020'')], [])])"
proof -
  have k: "crossref_key [(''  '', ''Crossref'', '' p ''), (''  '', ''title'', ''T'')] = Some ''p''"
    by code_simp
  have a: "map_of [(''p'', ''book'', [(''  '', ''year'', ''2020''), (''  '', ''title'', ''P'')], [])] ''p''
         = Some (''book'', [(''  '', ''year'', ''2020''), (''  '', ''title'', ''P'')], [])"
    by simp
  have b: "map_of [(''q'', ''book'', [(''  '', ''year'', ''2020'')], [])] ''p'' = None"
    by simp
  have c: "\<not> has_name ''crossref''
           (normalize_fields fromiso ''book'' ''k''
              [(''  '', ''Crossref'', '' p ''), (''  '', ''title'', ''T'')]
              [(''p'', ''book'', [(''  '', ''year'', ''2020''), (''  '', ''title'', ''P'')], [])])"
    for fromiso
    using normalize_fields_crossref [OF k, where fromiso = fromiso and t = "''book''"
        and key = "''k''" and entries_map =
        "[(''p'', ''book'', [(''  '', ''year'', ''2020''), (''  '', ''title'', ''P'')], [])]"] a
    by simp
  have d: "has_name ''crossref''
           (normalize_fields fromiso ''book'' ''k''
              [(''  '', ''Crossref'', '' p ''), (''  '', ''title'', ''T'')]
              [(''q'', ''book'', [(''  '', ''year'', ''2020'')], [])])"
    for fromiso
    using normalize_fields_crossref [OF k, where fromiso = fromiso and t = "''book''"
        and key = "''k''" and entries_map =
        "[(''q'', ''book'', [(''  '', ''year'', ''2020'')], [])]"] b
    by blast
  from k a b c d show ?thesis by blast
qed

text \<open>
  C1 as stated fails: a \<^verbatim>\<open>crossref\<close> that names a key unknown to the index (which holds
  the record itself) is still there after normalization.
\<close>

theorem unknown_crossref_stays:
  "\<forall>fromiso.
     normalize_fields fromiso ''book'' ''k'' [(''  '', ''crossref'', ''missing'')]
       [(''k'', ''book'', [(''  '', ''crossref'', ''missing'')], [])]
     = [(''  '', ''crossref'', ''missing'')]"
proof
  fix fromiso :: "string \<Rightarrow> string option"
  show "normalize_fields fromiso ''book'' ''k'' [(''  '', ''crossref'', ''missing'')]
       [(''k'', ''book'', [(''  '', ''crossref'', ''missing'')], [])]
     = [(''  '', ''crossref'', ''missing'')]"
    by code_simp
qed

section \<open>The second loop of main\<close>









section \<open>Type and key\<close>

lemma build_entry_header:
  "build_entry entry_type key nf unknown ind
     = ''@'' @ entry_type @ ''{'' @ key @ '','' @ newline
       @ join newline (map field_line nf @ unknown @ [''}''])"
proof -
  have "map field_line nf @ unknown @ [''}''] \<noteq> []" by simp
  then obtain x xs where c: "map field_line nf @ unknown @ [''}''] = x # xs"
    by (cases "map field_line nf @ unknown @ [''}'']") auto
  show ?thesis
    unfolding build_entry_def c header_line_def by simp
qed

text \<open>
  C9. For a record that the parser accepted, with the type and the key the parser gave:
  the second loop either drops the record as a duplicate, writing nothing, or writes one
  text, which starts with the line \<^verbatim>\<open>@type{key,\<close> made of that type and that key.
\<close>

theorem header_has_parsed_type_and_key:
  assumes "parse_entry entry_text = Some (entry_type, key, flds, unknown)"
    and "entry_type \<noteq> []"
  shows "(normalized_entries (main_step fromiso M (entry_type, key, flds, unknown) st)
            = normalized_entries st
          \<and> dropped (main_step fromiso M (entry_type, key, flds, unknown) st) = dropped st + 1)
         \<or> (\<exists>rest. normalized_entries (main_step fromiso M (entry_type, key, flds, unknown) st)
               = normalized_entries st
                 @ [''@'' @ entry_type @ ''{'' @ key @ '','' @ newline @ rest])"
proof -
  let ?p = "(entry_type, key, flds, unknown)"
  let ?nf = "new_fields_of fromiso M ?p"
  let ?fp = "fingerprint_of ?p ?nf"
  have step: "main_step fromiso M ?p st = dedup_entry ?p ?nf ?fp st"
    using assms(2) by (simp add: main_step_def process_entry_def)
  have keep: "\<exists>rest. normalized_entries (keep_entry ?p ?nf s)
               = normalized_entries s @ [''@'' @ entry_type @ ''{'' @ key @ '','' @ newline @ rest]"
    for s
    by (simp add: keep_entry_def emit_entry_def build_entry_header)
  show ?thesis
  proof (cases "any_fp ?fp \<and> ?fp \<in> seen st")
    case True
    then show ?thesis by (simp add: step dedup_entry_def)
  next
    case False
    then have "main_step fromiso M ?p st = keep_entry ?p ?nf st
        \<or> main_step fromiso M ?p st = keep_entry ?p ?nf (st\<lparr>seen := insert ?fp (seen st)\<rparr>)"
      by (auto simp: step dedup_entry_def)
    then show ?thesis
      using keep [of st] keep [of "st\<lparr>seen := insert ?fp (seen st)\<rparr>"] by auto
  qed
qed

theorem header_has_parsed_type_and_key_witness:
  "\<forall>fromiso.
     parse_entry (''@Article{Silva2020,'' @ newline @ ''  Title = {T},'' @ newline @ ''}'')
       = Some (''Article'', ''Silva2020'', [(''  '', ''Title'', ''T'')], [])
     \<and> normalized_entries
          (main_step fromiso [] (''Article'', ''Silva2020'', [(''  '', ''Title'', ''T'')], [])
             initial_state)
         = [''@Article{Silva2020,'' @ newline @ ''  title = {T},'' @ newline @ ''}'']"
proof
  fix fromiso :: "string \<Rightarrow> string option"
  have p: "parse_entry (''@Article{Silva2020,'' @ newline @ ''  Title = {T},'' @ newline @ ''}'')
       = Some (''Article'', ''Silva2020'', [(''  '', ''Title'', ''T'')], [])"
    by code_simp
  have n: "''Article'' \<noteq> []" by simp
  have e: "normalized_entries
          (main_step fromiso [] (''Article'', ''Silva2020'', [(''  '', ''Title'', ''T'')], [])
             initial_state)
         = [''@Article{Silva2020,'' @ newline @ ''  title = {T},'' @ newline @ ''}'']"
    by code_simp
  from header_has_parsed_type_and_key [OF p n, of fromiso "[]" initial_state] p e
  show "parse_entry (''@Article{Silva2020,'' @ newline @ ''  Title = {T},'' @ newline @ ''}'')
       = Some (''Article'', ''Silva2020'', [(''  '', ''Title'', ''T'')], [])
     \<and> normalized_entries
          (main_step fromiso [] (''Article'', ''Silva2020'', [(''  '', ''Title'', ''T'')], [])
             initial_state)
         = [''@Article{Silva2020,'' @ newline @ ''  title = {T},'' @ newline @ ''}'']"
    by blast
qed

section \<open>A second run\<close>





section \<open>Notes that hold a link\<close>

text \<open>
  C4, the code on a note that holds nothing but the two markers: the address has a full
  stop in it, the pattern for the availability marker stops there, the rest of the
  address is left over, and the note is kept. The \<^verbatim>\<open>url\<close> and \<^verbatim>\<open>urldate\<close> fields are
  added all the same.
\<close>

theorem note_with_dotted_address_is_kept:
  "\<forall>fromiso.
     \<not> is_trivial_note (''Dispon'' @ [CHR 0xED]
          @ ''vel em: <http://example.com>. Acesso em: 17 de abril de 2025.'')
     \<and> normalize_fields fromiso ''misc'' ''k''
         [(''  '', ''note'', ''Dispon'' @ [CHR 0xED]
             @ ''vel em: <http://example.com>. Acesso em: 17 de abril de 2025.'')] []
       = [(''  '', ''note'', ''Dispon'' @ [CHR 0xED]
             @ ''vel em: <http://example.com>. Acesso em: 17 de abril de 2025.''),
          (''  '', ''url'', ''http://example.com''),
          (''  '', ''urldate'', ''2025-04-17''),
          (''  '', ''year'', ''2025''),
          (''  '', ''howpublished'', ''Online''),
          (''  '', ''language'', ''portuguese'')]"
proof
  fix fromiso :: "string \<Rightarrow> string option"
  have a: "\<not> is_trivial_note (''Dispon'' @ [CHR 0xED]
          @ ''vel em: <http://example.com>. Acesso em: 17 de abril de 2025.'')"
    by code_simp
  have b: "normalize_fields fromiso ''misc'' ''k''
         [(''  '', ''note'', ''Dispon'' @ [CHR 0xED]
             @ ''vel em: <http://example.com>. Acesso em: 17 de abril de 2025.'')] []
       = [(''  '', ''note'', ''Dispon'' @ [CHR 0xED]
             @ ''vel em: <http://example.com>. Acesso em: 17 de abril de 2025.''),
          (''  '', ''url'', ''http://example.com''),
          (''  '', ''urldate'', ''2025-04-17''),
          (''  '', ''year'', ''2025''),
          (''  '', ''howpublished'', ''Online''),
          (''  '', ''language'', ''portuguese'')]"
    by code_simp
  from a b show "\<not> is_trivial_note (''Dispon'' @ [CHR 0xED]
          @ ''vel em: <http://example.com>. Acesso em: 17 de abril de 2025.'')
     \<and> normalize_fields fromiso ''misc'' ''k''
         [(''  '', ''note'', ''Dispon'' @ [CHR 0xED]
             @ ''vel em: <http://example.com>. Acesso em: 17 de abril de 2025.'')] []
       = [(''  '', ''note'', ''Dispon'' @ [CHR 0xED]
             @ ''vel em: <http://example.com>. Acesso em: 17 de abril de 2025.''),
          (''  '', ''url'', ''http://example.com''),
          (''  '', ''urldate'', ''2025-04-17''),
          (''  '', ''year'', ''2025''),
          (''  '', ''howpublished'', ''Online''),
          (''  '', ''language'', ''portuguese'')]"
    by (rule conjI)
qed

text \<open>
  The same note with an address that has no full stop in it is dropped, and the record
  gains the two fields: what the code does when the pattern reaches the end of the
  address.
\<close>

lemma note_without_dot_is_dropped:
  "normalize_fields fromiso ''misc'' ''k''
     [(''  '', ''note'', ''Dispon'' @ [CHR 0xED]
         @ ''vel em: <http://localhost/x>. Acesso em: 17 de abril de 2025.'')] []
   = [([], ''url'', ''http://localhost/x''), ([], ''urldate'', ''2025-04-17''),
      ([], ''year'', ''2025''), ([], ''howpublished'', ''Online'')]"
  by code_simp

end
